theory Spec2Isabelle
  imports Main "HOL-Library.Sublist" "HOL-Library.AList"
begin

section \<open>Python values\<close>

text \<open>
  A Python \<open>str\<close> is a sequence of Unicode code points, so it is modelled as a list of
  natural numbers; \<open>str\<close> turns an ASCII literal into such a list.
\<close>

type_synonym pystr = "nat list"

definition str :: "string \<Rightarrow> pystr" where
  "str s = map of_char s"

definition newline :: pystr where
  "newline = [10]"

definition hyphen :: nat where
  "hyphen = 45"

text \<open>\<^verbatim>\<open>sep.join(parts)\<close>\<close>

fun py_join :: "pystr \<Rightarrow> pystr list \<Rightarrow> pystr" where
  "py_join sep [] = []"
| "py_join sep [w] = w"
| "py_join sep (w # v # ws) = w @ sep @ py_join sep (v # ws)"

text \<open>\<^verbatim>\<open>word in text\<close> for two strings: \<open>word\<close> occurs in \<open>text\<close> as a contiguous piece.\<close>

fun py_in :: "pystr \<Rightarrow> pystr \<Rightarrow> bool" where
  "py_in w [] \<longleftrightarrow> w = []"
| "py_in w (c # cs) \<longleftrightarrow> prefix w (c # cs) \<or> py_in w cs"

text \<open>
  The values \<^verbatim>\<open>json.loads\<close> returns. A dictionary keeps its insertion order, so it is an
  association list (a key is looked up with \<open>map_of\<close>, and a dictionary that Python builds
  has each key once). No function of the program computes with a float, so a float is kept
  as its printed form.
\<close>

datatype json = JNull | JBool bool | JInt int | JFloat pystr | JStr pystr
  | JList "json list" | JDict "(pystr \<times> json) list"

text \<open>
  The exceptions the program can raise. \<open>External\<close> is an exception raised inside a
  collaborator (the generation client, the HTTP library, the file system), named by its class.
\<close>

datatype exn = ValueError pystr | JSONDecodeError | KeyError pystr | TypeError
  | AttributeError | IndexError | External pystr

fun exn_class :: "exn \<Rightarrow> pystr" where
  "exn_class (ValueError m) = str ''ValueError''"
| "exn_class JSONDecodeError = str ''JSONDecodeError''"
| "exn_class (KeyError k) = str ''KeyError''"
| "exn_class TypeError = str ''TypeError''"
| "exn_class AttributeError = str ''AttributeError''"
| "exn_class IndexError = str ''IndexError''"
| "exn_class (External c) = c"

text \<open>
  \<^verbatim>\<open>d[k]\<close> with a string key: a dictionary without the key raises \<^verbatim>\<open>KeyError\<close>, every other
  JSON value raises \<^verbatim>\<open>TypeError\<close>.
\<close>

fun subscript :: "json \<Rightarrow> pystr \<Rightarrow> exn + json" where
  "subscript (JDict kvs) k =
     (case map_of kvs k of None \<Rightarrow> Inl (KeyError k) | Some v \<Rightarrow> Inr v)"
| "subscript _ k = Inl TypeError"

section \<open>Collaborators and traces\<close>

text \<open>A content block of a generation response; only a text block has the attribute \<^verbatim>\<open>text\<close>.\<close>

datatype block = TextBlock pystr | OtherBlock

text \<open>The arguments of \<^verbatim>\<open>client.messages.create\<close>.\<close>

record request =
  req_model :: pystr
  req_max_tokens :: nat
  req_system :: pystr
  req_content :: pystr
  req_web_search :: bool

text \<open>An HTTP response: its status and what \<^verbatim>\<open>response.json()\<close> gives.\<close>

record response =
  status_code :: nat
  json_body :: "exn + json"

text \<open>
  The trace of a run records, in program order, every method of the orchestrator that is
  entered (with its arguments) and every request sent to a collaborator.
\<close>

datatype event =
    CreateUserStory pystr
  | DecideAgents json
  | Slugify json
  | CreateBranch pystr pystr
  | SpawnSpecialists json "pystr list"
  | SpawnResearcher json
  | SpawnSecurity json
  | SpawnArchitect json "pystr option" "pystr option"
  | SpawnDocumenter json
  | ExecuteGsd json "(pystr \<times> pystr) list" pystr pystr
  | WaitForPr pystr pystr
  | Create request
  | Get pystr "(pystr \<times> pystr) list"
  | Post pystr "(pystr \<times> pystr) list" json
  | WriteText pystr pystr pystr

text \<open>
  What the program takes from outside. The library functions are parameters; a collaborator
  answers a request as a function of the request and of the trace so far, and may raise.
  \<open>list_of_set\<close> is \<^verbatim>\<open>list(set(xs))\<close>, whose order is the interpreter's.
\<close>

record env =
  py_lower :: "pystr \<Rightarrow> pystr"
  json_dumps :: "json \<Rightarrow> pystr"
  json_dumps_indent2 :: "json \<Rightarrow> pystr"
  json_loads :: "pystr \<Rightarrow> exn + json"
  list_of_set :: "pystr list \<Rightarrow> pystr list"
  prompts :: "pystr \<Rightarrow> pystr option"
  github_token :: pystr
  gettempdir :: pystr
  messages_create :: "event list \<Rightarrow> request \<Rightarrow> exn + block list"
  requests_get ::
    "event list \<Rightarrow> pystr \<Rightarrow> (pystr \<times> pystr) list \<Rightarrow> exn + response"
  requests_post ::
    "event list \<Rightarrow> pystr \<Rightarrow> (pystr \<times> pystr) list \<Rightarrow> json \<Rightarrow> exn + response"
  write_text :: "event list \<Rightarrow> pystr \<Rightarrow> pystr \<Rightarrow> pystr \<Rightarrow> exn + unit"

text \<open>
  A coroutine of the orchestrator takes the trace so far and gives its result, an exception
  or a value, with the extended trace. \<^verbatim>\<open>await\<close> runs the awaited coroutine to its end, so
  sequencing is \<open>io_bind\<close>, which stops at the first exception.
\<close>

type_synonym 'a io = "event list \<Rightarrow> (exn + 'a) \<times> event list"

definition io_return :: "'a \<Rightarrow> 'a io" where
  "io_return x h = (Inr x, h)"

definition io_raise :: "exn \<Rightarrow> 'a io" where
  "io_raise e h = (Inl e, h)"

definition io_lift :: "exn + 'a \<Rightarrow> 'a io" where
  "io_lift r h = (r, h)"

definition io_bind :: "'a io \<Rightarrow> ('a \<Rightarrow> 'b io) \<Rightarrow> 'b io" where
  "io_bind m k h = (case m h of (Inl e, h') \<Rightarrow> (Inl e, h') | (Inr x, h') \<Rightarrow> k x h')"

definition emit :: "event \<Rightarrow> unit io" where
  "emit ev h = (Inr (), h @ [ev])"

definition perform :: "(event list \<Rightarrow> exn + 'a) \<Rightarrow> event \<Rightarrow> 'a io" where
  "perform f ev h = (f h, h @ [ev])"

section \<open>Specification Extractor\<close>

text \<open>
  \<^verbatim>\<open>re.search(r'\{.*\}', content, re.DOTALL)\<close>: the match starts at the first \<^verbatim>\<open>{\<close> and,
  the star being greedy and the dot matching every character, ends at the last \<^verbatim>\<open>}\<close>
  after it; there is no match when no \<^verbatim>\<open>}\<close> follows the first \<^verbatim>\<open>{\<close>.
\<close>

definition lbrace :: nat where
  "lbrace = 123"

definition rbrace :: nat where
  "rbrace = 125"

definition re_search_braces :: "pystr \<Rightarrow> pystr option" where
  "re_search_braces content =
     (let from_first = dropWhile (\<lambda>c. c \<noteq> lbrace) content;
          m = rev (dropWhile (\<lambda>c. c \<noteq> rbrace) (rev from_first))
      in if m = [] then None else Some m)"

text \<open>\<^verbatim>\<open>response.content[0].text\<close>\<close>

fun first_text :: "block list \<Rightarrow> exn + pystr" where
  "first_text [] = Inl IndexError"
| "first_text (TextBlock t # bs) = Inr t"
| "first_text (OtherBlock # bs) = Inl AttributeError"

definition model_name :: pystr where
  "model_name = str ''claude-sonnet-4-5''"

definition product_manager_prompt :: pystr where
  \<open>product_manager_prompt = py_join newline
     [str ''Eres un Product Manager experto.'',
      str ''Tu trabajo es convertir requests de usuarios en user stories estructuradas.'',
      [],
      str ''Formato de output (JSON):'',
      str ''{'',
      str ''    "title": "T'' @ [237] @ str ''tulo corto de la feature",'',
      str ''    "summary": "Como [rol], quiero [acci'' @ [243] @ str ''n], para [beneficio]",'',
      str ''    "acceptance_criteria": ["Criterio 1", "Criterio 2", ...],'',
      str ''    "technical_notes": "Notas t'' @ [233] @ str ''cnicas relevantes",'',
      str ''    "estimated_complexity": "low|medium|high"'',
      str ''}'',
      []]\<close>

definition user_story_request :: "pystr \<Rightarrow> request" where
  "user_story_request user_input =
     \<lparr>req_model = model_name, req_max_tokens = 4000, req_system = product_manager_prompt,
      req_content = str ''Crea user story para: '' @ user_input, req_web_search = False\<rparr>"

definition create_user_story :: "env \<Rightarrow> pystr \<Rightarrow> json io" where
  "create_user_story env user_input =
     io_bind (emit (CreateUserStory user_input)) (\<lambda>_.
     io_bind (perform (\<lambda>h. messages_create env h (user_story_request user_input))
                (Create (user_story_request user_input))) (\<lambda>blocks.
     io_bind (io_lift (first_text blocks)) (\<lambda>content.
     case re_search_braces content of
       Some json_match \<Rightarrow> io_lift (json_loads env json_match)
     | None \<Rightarrow> io_raise (ValueError (str ''No JSON found in response'')))))"

section \<open>Role Router\<close>

definition researcher :: pystr where
  "researcher = str ''researcher''"

definition architect :: pystr where
  "architect = str ''architect''"

definition documenter :: pystr where
  "documenter = str ''documenter''"

definition security :: pystr where
  "security = str ''security''"

definition new_feature_keywords :: "pystr list" where
  "new_feature_keywords =
     [str ''a'' @ [241] @ str ''ade'', str ''implementa'', str ''crea'', str ''nueva'',
      str ''a'' @ [241] @ str ''adir'', str ''agregar'', str ''auth'', str ''integra'',
      str ''conecta'']"

definition sensitive_keywords :: "pystr list" where
  "sensitive_keywords =
     [str ''auth'', str ''security'', str ''password'', str ''token'', str ''pharma'',
      str ''patient'', str ''hipaa'']"

definition story_text :: "env \<Rightarrow> json \<Rightarrow> pystr" where
  "story_text env user_story = py_lower env (json_dumps env user_story)"

definition decide_agents :: "env \<Rightarrow> json \<Rightarrow> pystr list" where
  "decide_agents env user_story =
     (let agents = [];
          agents =
            (if list_ex (\<lambda>word. py_in word (story_text env user_story)) new_feature_keywords
             then agents @ [researcher] else agents);
          agents = agents @ [architect];
          agents = agents @ [documenter];
          agents =
            (if list_ex (\<lambda>word. py_in word (story_text env user_story)) sensitive_keywords
             then agents @ [security] else agents)
      in list_of_set env agents)"

section \<open>Role Executors\<close>

text \<open>
  \<^verbatim>\<open>'\n'.join([block.text for block in response.content if hasattr(block, 'text')])\<close>
\<close>

fun block_text :: "block \<Rightarrow> pystr option" where
  "block_text (TextBlock t) = Some t"
| "block_text OtherBlock = None"

definition joined_text :: "block list \<Rightarrow> pystr" where
  "joined_text blocks = py_join newline (List.map_filter block_text blocks)"

text \<open>\<^verbatim>\<open>self.prompts[name]\<close>\<close>

definition prompt_of :: "env \<Rightarrow> pystr \<Rightarrow> exn + pystr" where
  "prompt_of env name =
     (case prompts env name of None \<Rightarrow> Inl (KeyError name) | Some p \<Rightarrow> Inr p)"

definition generate :: "env \<Rightarrow> request \<Rightarrow> pystr io" where
  "generate env req =
     io_bind (perform (\<lambda>h. messages_create env h req) (Create req)) (\<lambda>blocks.
     io_return (joined_text blocks))"

definition researcher_content :: "env \<Rightarrow> json \<Rightarrow> pystr" where
  "researcher_content env user_story = py_join newline
     [str ''Research for this feature:'',
      [],
      str ''User Story:'',
      json_dumps_indent2 env user_story,
      [],
      str ''Focus on:'',
      str ''- Best libraries/frameworks for this use case'',
      str ''- Best practices and patterns'',
      str ''- Security considerations'',
      str ''- Compliance requirements (pharma: 21 CFR Part 11, HIPAA, GDPR)'',
      []]"

definition spawn_researcher :: "env \<Rightarrow> json \<Rightarrow> pystr io" where
  "spawn_researcher env user_story =
     io_bind (emit (SpawnResearcher user_story)) (\<lambda>_.
     io_bind (io_lift (prompt_of env researcher)) (\<lambda>system.
     generate env
       \<lparr>req_model = model_name, req_max_tokens = 8000, req_system = system,
        req_content = researcher_content env user_story, req_web_search = True\<rparr>))"

text \<open>
  An optional part of the architect's prompt:
  \<^verbatim>\<open>if research: context_parts.append(f"\nResearch Findings:\n{research}")\<close>. The test holds
  for a string that is neither \<^verbatim>\<open>None\<close> nor empty.
\<close>

fun optional_part :: "pystr \<Rightarrow> pystr option \<Rightarrow> pystr list" where
  "optional_part label None = []"
| "optional_part label (Some findings) =
     (if findings = [] then [] else [newline @ label @ newline @ findings])"

definition architect_content :: "env \<Rightarrow> json \<Rightarrow> pystr option \<Rightarrow> pystr option \<Rightarrow> pystr" where
  "architect_content env user_story research security_findings =
     (let context_parts = [str ''User Story:'' @ newline @ json_dumps_indent2 env user_story];
          context_parts = context_parts @ optional_part (str ''Research Findings:'') research;
          context_parts = context_parts
            @ optional_part (str ''Security Requirements:'') security_findings
      in py_join (newline @ newline) context_parts)"

definition spawn_architect :: "env \<Rightarrow> json \<Rightarrow> pystr option \<Rightarrow> pystr option \<Rightarrow> pystr io" where
  "spawn_architect env user_story research security_findings =
     io_bind (emit (SpawnArchitect user_story research security_findings)) (\<lambda>_.
     io_bind (io_lift (prompt_of env architect)) (\<lambda>system.
     generate env
       \<lparr>req_model = model_name, req_max_tokens = 16000, req_system = system,
        req_content = architect_content env user_story research security_findings,
        req_web_search = False\<rparr>))"

definition security_content :: "env \<Rightarrow> json \<Rightarrow> pystr" where
  "security_content env user_story = py_join newline
     [str ''Analyze security requirements for:'',
      [],
      json_dumps_indent2 env user_story,
      [],
      str ''Focus on:'',
      str ''- Data protection (encryption, access control)'',
      str ''- Compliance (HIPAA, GDPR, 21 CFR Part 11)'',
      str ''- Audit logging requirements'',
      str ''- Security testing requirements'',
      []]"

definition spawn_security :: "env \<Rightarrow> json \<Rightarrow> pystr io" where
  "spawn_security env user_story =
     io_bind (emit (SpawnSecurity user_story)) (\<lambda>_.
     generate env
       \<lparr>req_model = model_name, req_max_tokens = 8000,
        req_system = (case prompts env security of None \<Rightarrow> str ''You are a security expert.''
                      | Some p \<Rightarrow> p),
        req_content = security_content env user_story, req_web_search = False\<rparr>)"

definition spawn_documenter :: "env \<Rightarrow> json \<Rightarrow> pystr io" where
  "spawn_documenter env user_story =
     io_bind (emit (SpawnDocumenter user_story)) (\<lambda>_.
     io_bind (io_lift (prompt_of env documenter)) (\<lambda>system.
     generate env
       \<lparr>req_model = model_name, req_max_tokens = 8000, req_system = system,
        req_content = str ''Create documentation for:'' @ newline
          @ json_dumps_indent2 env user_story,
        req_web_search = False\<rparr>))"

section \<open>Sequencer\<close>

text \<open>
  One block of \<^verbatim>\<open>_spawn_specialists_sequential\<close>:
  \<^verbatim>\<open>if role in agents: results[role] = await spawn(...)\<close>. The dictionary \<open>results\<close> is an
  association list in insertion order.
\<close>

definition run_role ::
  "pystr list \<Rightarrow> pystr \<Rightarrow> pystr io \<Rightarrow> (pystr \<times> pystr) list \<Rightarrow> (pystr \<times> pystr) list io" where
  "run_role agents role spawn results =
     (if role \<in> set agents
      then io_bind spawn (\<lambda>out. io_return (AList.update role out results))
      else io_return results)"

definition spawn_specialists_sequential ::
  "env \<Rightarrow> json \<Rightarrow> pystr list \<Rightarrow> (pystr \<times> pystr) list io" where
  "spawn_specialists_sequential env user_story agents =
     io_bind (emit (SpawnSpecialists user_story agents)) (\<lambda>_.
     io_bind (run_role agents researcher (spawn_researcher env user_story) []) (\<lambda>results.
     io_bind (run_role agents security (spawn_security env user_story) results) (\<lambda>results.
     io_bind (run_role agents architect
                (spawn_architect env user_story
                   (map_of results researcher) (map_of results security))
                results) (\<lambda>results.
     io_bind (run_role agents documenter (spawn_documenter env user_story) results) (\<lambda>results.
     io_return results)))))"

section \<open>Branch Provisioner\<close>

text \<open>
  \<^verbatim>\<open>re.sub(r'[^a-z0-9]+', '-', text)\<close>: scanning from the left, every maximal run of
  characters outside \<^verbatim>\<open>[a-z0-9]\<close> is replaced by one hyphen.
\<close>

definition is_alnum :: "nat \<Rightarrow> bool" where
  "is_alnum c \<longleftrightarrow> (97 \<le> c \<and> c \<le> 122) \<or> (48 \<le> c \<and> c \<le> 57)"

function re_sub_non_alnum :: "pystr \<Rightarrow> pystr" where
  "re_sub_non_alnum [] = []"
| "re_sub_non_alnum (c # cs) =
     (if is_alnum c then c # re_sub_non_alnum cs
      else hyphen # re_sub_non_alnum (dropWhile (\<lambda>d. \<not> is_alnum d) cs))"
  by pat_completeness auto
termination
  by (relation "measure length") (auto simp: less_Suc_eq_le length_dropWhile_le)

text \<open>\<^verbatim>\<open>text.strip('-')\<close>\<close>

definition strip_hyphen :: "pystr \<Rightarrow> pystr" where
  "strip_hyphen s =
     rev (dropWhile (\<lambda>c. c = hyphen) (rev (dropWhile (\<lambda>c. c = hyphen) s)))"

text \<open>
  \<^verbatim>\<open>_slugify\<close>. \<^verbatim>\<open>str.lower\<close> follows the Unicode tables of the interpreter, which are not
  part of the program: it is the parameter \<open>lower\<close>.
\<close>

definition slugify :: "(pystr \<Rightarrow> pystr) \<Rightarrow> pystr \<Rightarrow> pystr" where
  "slugify lower text = strip_hyphen (re_sub_non_alnum (lower text))"

text \<open>
  \<^verbatim>\<open>_slugify\<close> on a field of the user story: only a string has the method \<^verbatim>\<open>lower\<close>.
\<close>

fun slugify_value :: "env \<Rightarrow> json \<Rightarrow> exn + pystr" where
  "slugify_value env (JStr text) = Inr (slugify (py_lower env) text)"
| "slugify_value env _ = Inl AttributeError"

definition github_api :: pystr where
  "github_api = str ''https://api.github.com''"

definition request_headers :: "env \<Rightarrow> (pystr \<times> pystr) list" where
  "request_headers env =
     [(str ''Authorization'', str ''token '' @ github_token env),
      (str ''Accept'', str ''application/vnd.github.v3+json'')]"

definition head_url :: "pystr \<Rightarrow> pystr" where
  "head_url repo = github_api @ str ''/repos/'' @ repo @ str ''/git/refs/heads/main''"

definition create_url :: "pystr \<Rightarrow> pystr" where
  "create_url repo = github_api @ str ''/repos/'' @ repo @ str ''/git/refs''"

definition ref_payload :: "pystr \<Rightarrow> json \<Rightarrow> json" where
  "ref_payload branch_name sha =
     JDict [(str ''ref'', JStr (str ''refs/heads/'' @ branch_name)), (str ''sha'', sha)]"

definition create_branch :: "env \<Rightarrow> pystr \<Rightarrow> pystr \<Rightarrow> unit io" where
  "create_branch env repo branch_name =
     io_bind (emit (CreateBranch repo branch_name)) (\<lambda>_.
     io_bind (perform (\<lambda>h. requests_get env h (head_url repo) (request_headers env))
                (Get (head_url repo) (request_headers env))) (\<lambda>response.
     io_bind (io_lift (json_body response)) (\<lambda>body.
     io_bind (io_lift (subscript body (str ''object''))) (\<lambda>obj.
     io_bind (io_lift (subscript obj (str ''sha''))) (\<lambda>sha.
     io_bind (perform
                (\<lambda>h. requests_post env h (create_url repo) (request_headers env)
                   (ref_payload branch_name sha))
                (Post (create_url repo) (request_headers env) (ref_payload branch_name sha)))
       (\<lambda>_. io_return ()))))))"

section \<open>Handoff Publisher\<close>

text \<open>\<^verbatim>\<open>context.get(role)\<close> as a JSON value: \<^verbatim>\<open>None\<close> is serialized as \<^verbatim>\<open>null\<close>.\<close>

definition context_get :: "(pystr \<times> pystr) list \<Rightarrow> pystr \<Rightarrow> json" where
  "context_get context role =
     (case map_of context role of None \<Rightarrow> JNull | Some out \<Rightarrow> JStr out)"

definition handoff_payload :: "json \<Rightarrow> (pystr \<times> pystr) list \<Rightarrow> json" where
  "handoff_payload user_story context =
     JDict [(str ''user_story'', user_story),
            (str ''research'', context_get context researcher),
            (str ''architecture'', context_get context architect),
            (str ''documentation'', context_get context documenter),
            (str ''security'', context_get context security)]"

definition context_file_name :: pystr where
  "context_file_name = str ''gsd_context.json''"

definition execute_gsd :: "env \<Rightarrow> json \<Rightarrow> (pystr \<times> pystr) list \<Rightarrow> pystr \<Rightarrow> pystr \<Rightarrow> unit io" where
  "execute_gsd env user_story context repo branch =
     io_bind (emit (ExecuteGsd user_story context repo branch)) (\<lambda>_.
     perform
       (\<lambda>h. write_text env h (gettempdir env) context_file_name
          (json_dumps_indent2 env (handoff_payload user_story context)))
       (WriteText (gettempdir env) context_file_name
          (json_dumps_indent2 env (handoff_payload user_story context))))"

section \<open>Completion Watcher\<close>

definition wait_for_pr :: "pystr \<Rightarrow> pystr \<Rightarrow> pystr io" where
  "wait_for_pr repo branch =
     io_bind (emit (WaitForPr repo branch)) (\<lambda>_.
     io_return (str ''https://github.com/'' @ repo @ str ''/pull/XXX''))"

section \<open>Run Coordinator\<close>

text \<open>
  \<^verbatim>\<open>handle_request\<close>. Console output is left out, but for the line printed after step 1: it
  reads \<^verbatim>\<open>user_story['summary']\<close>, which can raise. The two methods that are no coroutines,
  \<^verbatim>\<open>_decide_agents\<close> and \<^verbatim>\<open>_slugify\<close>, are recorded in the trace where they are called.
\<close>

definition handle_request :: "env \<Rightarrow> pystr \<Rightarrow> pystr \<Rightarrow> pystr io" where
  "handle_request env user_input repo =
     io_bind (create_user_story env user_input) (\<lambda>user_story.
     io_bind (io_lift (subscript user_story (str ''summary''))) (\<lambda>_.
     io_bind (emit (DecideAgents user_story)) (\<lambda>_.
     io_bind (io_return (decide_agents env user_story)) (\<lambda>agents_needed.
     io_bind (io_lift (subscript user_story (str ''title''))) (\<lambda>title.
     io_bind (emit (Slugify title)) (\<lambda>_.
     io_bind (io_lift (slugify_value env title)) (\<lambda>slug.
     io_bind (io_return (str ''feature/'' @ slug)) (\<lambda>branch_name.
     io_bind (create_branch env repo branch_name) (\<lambda>_.
     io_bind (spawn_specialists_sequential env user_story agents_needed) (\<lambda>specialist_results.
     io_bind (execute_gsd env user_story specialist_results repo branch_name) (\<lambda>_.
     io_bind (wait_for_pr repo branch_name) (\<lambda>pr_url.
     io_return pr_url))))))))))))"

section \<open>Notions used to state the properties\<close>

subsection \<open>The shape of a slug\<close>

text \<open>
  The words of a text: its maximal non-empty runs of characters of \<^verbatim>\<open>[a-z0-9]\<close>, from
  left to right.
\<close>

function alnum_words :: "pystr \<Rightarrow> pystr list" where
  "alnum_words [] = []"
| "alnum_words (c # cs) =
     (if is_alnum c then (c # takeWhile is_alnum cs) # alnum_words (dropWhile is_alnum cs)
      else alnum_words cs)"
  by pat_completeness auto
termination
  by (relation "measure length") (auto simp: less_Suc_eq_le length_dropWhile_le)

text \<open>
  The slug as the specification words it: the lower-cased title with every run of other
  characters collapsed to one separator, and no separator at either end. That is the words
  of the lower-cased title joined by single hyphens.
\<close>

definition slug_spec :: "(pystr \<Rightarrow> pystr) \<Rightarrow> pystr \<Rightarrow> pystr" where
  "slug_spec lower text = py_join [hyphen] (alnum_words (lower text))"

definition alnum_word :: "pystr \<Rightarrow> bool" where
  "alnum_word w \<longleftrightarrow> w \<noteq> [] \<and> list_all is_alnum w"

text \<open>No two hyphens are adjacent.\<close>

fun single_hyphens :: "pystr \<Rightarrow> bool" where
  "single_hyphens (a # b # cs) \<longleftrightarrow> \<not> (a = hyphen \<and> b = hyphen) \<and> single_hyphens (b # cs)"
| "single_hyphens _ \<longleftrightarrow> True"

text \<open>
  The one fact about \<^verbatim>\<open>str.lower\<close> that idempotence needs: it leaves a string of lower-case
  ASCII letters, digits and hyphens as it is.
\<close>

definition fixes_slugs :: "(pystr \<Rightarrow> pystr) \<Rightarrow> bool" where
  "fixes_slugs lower \<longleftrightarrow> (\<forall>s. list_all (\<lambda>c. is_alnum c \<or> c = hyphen) s \<longrightarrow> lower s = s)"

subsection \<open>Canned collaborators for concrete runs\<close>

text \<open>Lower-casing of the ASCII letters; every other character is left as it is.\<close>

definition ascii_lower :: "pystr \<Rightarrow> pystr" where
  "ascii_lower s = map (\<lambda>c. if 65 \<le> c \<and> c \<le> 90 then c + 32 else c) s"

text \<open>
  Printers that agree with \<^verbatim>\<open>json.dumps(v)\<close> and \<^verbatim>\<open>json.dumps(v, indent=2)\<close> on the values
  whose strings are printable ASCII without quotes and backslashes.
\<close>

function decimal :: "nat \<Rightarrow> pystr" where
  "decimal n = (if n < 10 then [48 + n] else decimal (n div 10) @ [48 + n mod 10])"
  by pat_completeness auto
termination
  by (relation "measure id") auto

definition quoted :: "pystr \<Rightarrow> pystr" where
  "quoted s = [34] @ s @ [34]"

fun dumps_compact :: "json \<Rightarrow> pystr" where
  "dumps_compact JNull = str ''null''"
| "dumps_compact (JBool b) = (if b then str ''true'' else str ''false'')"
| "dumps_compact (JInt i) = (if i < 0 then str ''-'' @ decimal (nat (- i)) else decimal (nat i))"
| "dumps_compact (JFloat r) = r"
| "dumps_compact (JStr s) = quoted s"
| "dumps_compact (JList xs) = str ''['' @ py_join (str '', '') (map dumps_compact xs) @ str '']''"
| "dumps_compact (JDict kvs) =
     str ''{''
     @ py_join (str '', '') (map (\<lambda>(k, v). quoted k @ str '': '' @ dumps_compact v) kvs)
     @ str ''}''"

fun dumps_indent :: "nat \<Rightarrow> json \<Rightarrow> pystr" where
  "dumps_indent n (JList xs) =
     (if xs = [] then str ''[]''
      else str ''['' @ newline
        @ py_join (str '','' @ newline)
            (map (\<lambda>x. replicate (n + 2) 32 @ dumps_indent (n + 2) x) xs)
        @ newline @ replicate n 32 @ str '']'')"
| "dumps_indent n (JDict kvs) =
     (if kvs = [] then str ''{}''
      else str ''{'' @ newline
        @ py_join (str '','' @ newline)
            (map (\<lambda>(k, v). replicate (n + 2) 32 @ quoted k @ str '': '' @ dumps_indent (n + 2) v)
               kvs)
        @ newline @ replicate n 32 @ str ''}'')"
| "dumps_indent n v = dumps_compact v"

text \<open>Two user stories: one with trigger keywords of both groups, one with none.\<close>

definition oauth_story :: json where
  "oauth_story = JDict
     [(str ''title'', JStr (str ''Add OAuth2 login'')),
      (str ''summary'', JStr (str ''Log in with OAuth2'')),
      (str ''acceptance_criteria'', JList [JStr (str ''Login works'')]),
      (str ''technical_notes'', JStr (str ''Use PKCE'')),
      (str ''estimated_complexity'', JStr (str ''low''))]"

definition typo_story :: json where
  "typo_story = JDict
     [(str ''title'', JStr (str ''Fix typo in README'')),
      (str ''summary'', JStr (str ''Fix it'')),
      (str ''acceptance_criteria'', JList []),
      (str ''technical_notes'', JStr []),
      (str ''estimated_complexity'', JStr (str ''low''))]"

text \<open>
  A collaborator set in which every request succeeds. The generation capability answers the
  user-story request with a sentence that holds the serialized \<open>story\<close> and every role
  request with one non-text block and one text block; \<^verbatim>\<open>json.loads\<close> is the table with the
  one entry the run needs; the instruction set for the security role is absent, as the
  program allows.
\<close>

definition canned_prompts :: "pystr \<Rightarrow> pystr option" where
  "canned_prompts = map_of
     [(researcher, str ''You research.''),
      (architect, str ''You design.''),
      (documenter, str ''You document.'')]"

definition canned_generation :: "json \<Rightarrow> event list \<Rightarrow> request \<Rightarrow> exn + block list" where
  "canned_generation story h req =
     (if req_max_tokens req = 4000
      then Inr [TextBlock (str ''Here is the user story: '' @ dumps_compact story)]
      else Inr [OtherBlock, TextBlock (str ''Output for: '' @ req_system req)])"

definition head_response :: response where
  "head_response =
     \<lparr>status_code = 200,
      json_body = Inr (JDict [(str ''ref'', JStr (str ''refs/heads/main'')),
                              (str ''object'', JDict [(str ''sha'', JStr (str ''abc123''))])])\<rparr>"

definition canned_env :: "json \<Rightarrow> env" where
  "canned_env story =
     \<lparr>py_lower = ascii_lower,
      json_dumps = dumps_compact,
      json_dumps_indent2 = dumps_indent 0,
      json_loads = (\<lambda>s. if s = dumps_compact story then Inr story else Inl JSONDecodeError),
      list_of_set = remdups,
      prompts = canned_prompts,
      github_token = str ''secret'',
      gettempdir = str ''/tmp'',
      messages_create = canned_generation story,
      requests_get = (\<lambda>h url headers. Inr head_response),
      requests_post = (\<lambda>h url headers payload. Inr \<lparr>status_code = 201, json_body = Inr payload\<rparr>),
      write_text = (\<lambda>h dir name text. Inr ())\<rparr>"

text \<open>Collaborators that misbehave in one respect each.\<close>

definition prose_env :: env where
  "prose_env = (canned_env oauth_story)
     \<lparr>messages_create := (\<lambda>h req. Inr [TextBlock (str ''I cannot write that story.'')])\<rparr>"



definition not_found :: response where
  "not_found =
     \<lparr>status_code = 404, json_body = Inr (JDict [(str ''message'', JStr (str ''Not Found''))])\<rparr>"

definition headless_env :: env where
  "headless_env = (canned_env oauth_story)
     \<lparr>requests_get := (\<lambda>h url headers. Inr not_found)\<rparr>"


subsection \<open>Role sets\<close>

text \<open>The fixed vocabulary of role identifiers.\<close>

definition role_vocabulary :: "pystr list" where
  "role_vocabulary = [researcher, security, architect, documenter]"

text \<open>
  What is known of \<^verbatim>\<open>list(set(xs))\<close>: it holds every element of \<open>xs\<close> once, in some order.
\<close>

definition lists_a_set :: "(pystr list \<Rightarrow> pystr list) \<Rightarrow> bool" where
  "lists_a_set f \<longleftrightarrow> (\<forall>xs. distinct (f xs) \<and> set (f xs) = set xs)"

text \<open>The roles of a role set in the order in which the engine runs them.\<close>

definition scheduled :: "pystr list \<Rightarrow> pystr list" where
  "scheduled agents = filter (\<lambda>role. role \<in> set agents) role_vocabulary"

subsection \<open>Reading a trace\<close>

text \<open>The role executors that were entered, in order.\<close>

fun role_call :: "event \<Rightarrow> pystr option" where
  "role_call (SpawnResearcher s) = Some researcher"
| "role_call (SpawnSecurity s) = Some security"
| "role_call (SpawnArchitect s r c) = Some architect"
| "role_call (SpawnDocumenter s) = Some documenter"
| "role_call _ = None"

definition roles_run :: "event list \<Rightarrow> pystr list" where
  "roles_run evs = List.map_filter role_call evs"

text \<open>The inputs with which the architect was entered.\<close>

fun architect_inputs :: "event \<Rightarrow> (json \<times> pystr option \<times> pystr option) option" where
  "architect_inputs (SpawnArchitect s r c) = Some (s, r, c)"
| "architect_inputs _ = None"

fun is_create :: "event \<Rightarrow> bool" where
  "is_create (Create req) \<longleftrightarrow> True"
| "is_create _ \<longleftrightarrow> False"

text \<open>The events a run added to the trace it started from.\<close>

definition added :: "event list \<Rightarrow> event list \<Rightarrow> event list" where
  "added h h' = drop (length h) h'"

text \<open>
  The components of the design, and the component whose method an event enters. The
  remaining events are helpers and role executors entered inside a component, and requests
  to collaborators.
\<close>

datatype component = Extractor | Router | BranchProvisioner | Sequencer | HandoffPublisher
  | CompletionWatcher

fun component_of :: "event \<Rightarrow> component option" where
  "component_of (CreateUserStory user_input) = Some Extractor"
| "component_of (DecideAgents user_story) = Some Router"
| "component_of (CreateBranch repo branch_name) = Some BranchProvisioner"
| "component_of (SpawnSpecialists user_story agents) = Some Sequencer"
| "component_of (ExecuteGsd user_story context repo branch) = Some HandoffPublisher"
| "component_of (WaitForPr repo branch) = Some CompletionWatcher"
| "component_of _ = None"

definition invoked :: "event list \<Rightarrow> component list" where
  "invoked evs = List.map_filter component_of evs"

text \<open>The order of invocation the specification states, and the one of \<^verbatim>\<open>handle_request\<close>.\<close>

definition stated_order :: "component list" where
  "stated_order =
     [Extractor, Router, Sequencer, BranchProvisioner, HandoffPublisher, CompletionWatcher]"

definition program_order :: "component list" where
  "program_order =
     [Extractor, Router, BranchProvisioner, Sequencer, HandoffPublisher, CompletionWatcher]"

text \<open>The handoff payloads written, and the requests sent to the hosting collaborator.\<close>

fun written :: "event \<Rightarrow> pystr option" where
  "written (WriteText dir name text) = Some text"
| "written _ = None"

definition published :: "event list \<Rightarrow> pystr list" where
  "published evs = List.map_filter written evs"

fun is_hosting_request :: "event \<Rightarrow> bool" where
  "is_hosting_request (Get url headers) \<longleftrightarrow> True"
| "is_hosting_request (Post url headers payload) \<longleftrightarrow> True"
| "is_hosting_request _ \<longleftrightarrow> False"

fun is_post :: "event \<Rightarrow> bool" where
  "is_post (Post url headers payload) \<longleftrightarrow> True"
| "is_post _ \<longleftrightarrow> False"

text \<open>The events of the sequencer's blocks: a role executor is entered, a generation is requested.\<close>

definition role_event :: "event \<Rightarrow> bool" where
  "role_event ev \<longleftrightarrow> role_call ev \<noteq> None \<or> is_create ev"

text \<open>A coroutine that only adds events of one class to the trace.\<close>

definition adds :: "(event \<Rightarrow> bool) \<Rightarrow> 'a io \<Rightarrow> bool" where
  "adds P m \<longleftrightarrow> (\<forall>h. \<exists>evs. snd (m h) = h @ evs \<and> list_all P evs)"

text \<open>
  The exception classes of the specification's taxonomy, by name. No class of the program or
  of its libraries has one of these names.
\<close>

definition specification_errors :: "pystr list" where
  "specification_errors =
     [str ''SpecificationParseError'', str ''SpecificationFormatError'',
      str ''RoleExecutionError'', str ''BranchProvisionError'', str ''PublishError'',
      str ''PullRequestTimeoutError'', str ''Cancelled'']"

subsection \<open>The head of the default branch\<close>

text \<open>The value of \<^verbatim>\<open>response.json()['object']['sha']\<close>.\<close>

definition head_sha :: "response \<Rightarrow> exn + json" where
  "head_sha response =
     (case json_body response of
        Inl e \<Rightarrow> Inl e
      | Inr body \<Rightarrow>
          (case subscript body (str ''object'') of
             Inl e \<Rightarrow> Inl e
           | Inr obj \<Rightarrow> subscript obj (str ''sha'')))"

section \<open>Properties of the slug\<close>

lemma not_alnum_hyphen [simp]: "\<not> is_alnum hyphen"
  by (simp add: is_alnum_def hyphen_def)

lemma dropWhile_starts: "dropWhile P cs = [] \<or> \<not> P (hd (dropWhile P cs))"
  using hd_dropWhile[of P cs] by blast

lemma py_join_Cons: "py_join sep (w # ws) = (if ws = [] then w else w @ sep @ py_join sep ws)"
  by (cases ws) simp_all

subsection \<open>The substitution and the two strips, in terms of words\<close>

lemma words_skip: "alnum_words (dropWhile (\<lambda>d. \<not> is_alnum d) cs) = alnum_words cs"
  by (induction cs) auto

lemma resub_alnum_run:
  "\<forall>c\<in>set a. is_alnum c \<Longrightarrow> re_sub_non_alnum (a @ t) = a @ re_sub_non_alnum t"
  by (induction a) auto

lemma lstrip_resub_id:
  "u = [] \<or> is_alnum (hd u) \<Longrightarrow>
   dropWhile (\<lambda>c. c = hyphen) (re_sub_non_alnum u) = re_sub_non_alnum u"
  by (cases u) auto

lemma lstrip_resub:
  "dropWhile (\<lambda>c. c = hyphen) (re_sub_non_alnum t)
     = re_sub_non_alnum (dropWhile (\<lambda>d. \<not> is_alnum d) t)"
proof (cases t)
  case Nil
  then show ?thesis by simp
next
  case (Cons c cs)
  show ?thesis
  proof (cases "is_alnum c")
    case True
    then have "c \<noteq> hyphen" by auto
    with True Cons show ?thesis by simp
  next
    case False
    let ?u = "dropWhile (\<lambda>d. \<not> is_alnum d) cs"
    have "?u = [] \<or> is_alnum (hd ?u)"
      using dropWhile_starts[of "\<lambda>d. \<not> is_alnum d" cs] by simp
    then have "dropWhile (\<lambda>c. c = hyphen) (re_sub_non_alnum ?u) = re_sub_non_alnum ?u"
      by (rule lstrip_resub_id)
    with False Cons show ?thesis by simp
  qed
qed

lemma rstrip_Cons:
  "rev (dropWhile (\<lambda>c. c = hyphen) (rev (c # s)))
     = (if rev (dropWhile (\<lambda>c. c = hyphen) (rev s)) = [] \<and> c = hyphen then []
        else c # rev (dropWhile (\<lambda>c. c = hyphen) (rev s)))"
  by (auto simp: dropWhile_append)

lemma rstrip_append:
  "\<forall>c\<in>set a. c \<noteq> hyphen \<Longrightarrow>
   rev (dropWhile (\<lambda>c. c = hyphen) (rev (a @ s))) = a @ rev (dropWhile (\<lambda>c. c = hyphen) (rev s))"
proof (induction a)
  case Nil
  then show ?case by simp
next
  case (Cons x a)
  then have "rev (dropWhile (\<lambda>c. c = hyphen) (rev (a @ s)))
      = a @ rev (dropWhile (\<lambda>c. c = hyphen) (rev s))" by simp
  moreover have "x \<noteq> hyphen" using Cons.prems by simp
  ultimately show ?case using rstrip_Cons[of x "a @ s"] by simp
qed

lemma rstrip_resub:
  "u = [] \<or> is_alnum (hd u) \<Longrightarrow>
   rev (dropWhile (\<lambda>c. c = hyphen) (rev (re_sub_non_alnum u))) = py_join [hyphen] (alnum_words u)"
proof (induction u rule: length_induct)
  case (1 u)
  let ?rs = "\<lambda>s. rev (dropWhile (\<lambda>c. c = hyphen) (rev s))"
  show ?case
  proof (cases u)
    case Nil
    then show ?thesis by simp
  next
    case (Cons c cs)
    with 1 have c: "is_alnum c" by simp
    let ?a = "c # takeWhile is_alnum cs"
    let ?rest = "dropWhile is_alnum cs"
    let ?u' = "dropWhile (\<lambda>d. \<not> is_alnum d) ?rest"
    have a: "\<forall>x\<in>set ?a. is_alnum x" using c by (auto dest: set_takeWhileD)
    then have a': "\<forall>x\<in>set ?a. x \<noteq> hyphen" by auto
    have u: "u = ?a @ ?rest" using Cons by simp
    have R: "re_sub_non_alnum u = ?a @ re_sub_non_alnum ?rest"
      using resub_alnum_run[OF a, of ?rest] u by simp
    have W: "alnum_words u = ?a # alnum_words ?u'"
      using Cons c by (simp add: words_skip)
    have len: "length ?u' < length u"
      using Cons
      by (simp add: less_Suc_eq_le order_trans[OF length_dropWhile_le length_dropWhile_le])
    have st: "?u' = [] \<or> is_alnum (hd ?u')"
      using dropWhile_starts[of "\<lambda>d. \<not> is_alnum d" ?rest] by simp
    have IH: "?rs (re_sub_non_alnum ?u') = py_join [hyphen] (alnum_words ?u')"
      using 1 len st by blast
    show ?thesis
    proof (cases ?rest)
      case Nil
      have "re_sub_non_alnum u = ?a" using R unfolding Nil by simp
      moreover have "alnum_words u = [?a]" using W unfolding Nil by simp
      moreover have "?rs ?a = ?a" using rstrip_append[OF a', of "[]"] by simp
      ultimately show ?thesis by simp
    next
      case (Cons d ds)
      then have d: "\<not> is_alnum d" using dropWhile_starts[of is_alnum cs] by simp
      have Rr: "re_sub_non_alnum ?rest = hyphen # re_sub_non_alnum ?u'"
        using Cons d by simp
      show ?thesis
      proof (cases ?u')
        case Nil
        have "re_sub_non_alnum ?rest = [hyphen]" using Rr unfolding Nil by simp
        then have "re_sub_non_alnum u = ?a @ [hyphen]" using R by simp
        moreover have "?rs (?a @ [hyphen]) = ?a" using rstrip_append[OF a', of "[hyphen]"] by simp
        moreover have "alnum_words u = [?a]" using W unfolding Nil by simp
        ultimately show ?thesis by simp
      next
        case (Cons e es)
        then have e: "is_alnum e" using st by simp
        then have "re_sub_non_alnum ?u' = e # re_sub_non_alnum es" using Cons by simp
        moreover have "e \<noteq> hyphen" using e by auto
        ultimately have ne: "?rs (re_sub_non_alnum ?u') \<noteq> []"
          using rstrip_Cons[of e "re_sub_non_alnum es"] by simp
        have "?rs (re_sub_non_alnum ?rest) = hyphen # ?rs (re_sub_non_alnum ?u')"
          using Rr ne rstrip_Cons[of hyphen "re_sub_non_alnum ?u'"] by simp
        moreover have "alnum_words ?u' \<noteq> []" using Cons e by simp
        ultimately show ?thesis
          using R W IH rstrip_append[OF a', of "re_sub_non_alnum ?rest"]
          by (simp add: py_join_Cons)
      qed
    qed
  qed
qed

lemma slugify_refines: "slugify lower t = slug_spec lower t"
proof -
  let ?u = "dropWhile (\<lambda>d. \<not> is_alnum d) (lower t)"
  have "?u = [] \<or> is_alnum (hd ?u)"
    using dropWhile_starts[of "\<lambda>d. \<not> is_alnum d" "lower t"] by simp
  then have "rev (dropWhile (\<lambda>c. c = hyphen) (rev (re_sub_non_alnum ?u)))
      = py_join [hyphen] (alnum_words ?u)"
    by (rule rstrip_resub)
  then show ?thesis
    by (simp add: slugify_def slug_spec_def strip_hyphen_def lstrip_resub words_skip)
qed

subsection \<open>Words joined by hyphens\<close>

lemma alnum_words_are_words: "list_all alnum_word (alnum_words u)"
proof (induction u rule: alnum_words.induct)
  case 1
  then show ?case by simp
next
  case (2 c cs)
  show ?case
  proof (cases "is_alnum c")
    case True
    have "\<forall>x\<in>set (takeWhile is_alnum cs). is_alnum x" by (auto dest: set_takeWhileD)
    then have "alnum_word (c # takeWhile is_alnum cs)"
      using True by (simp add: alnum_word_def list_all_iff)
    then show ?thesis using True 2 by simp
  next
    case False
    then show ?thesis using 2 by simp
  qed
qed


lemma alnum_words_word:
  assumes "alnum_word w" and "rest = [] \<or> \<not> is_alnum (hd rest)"
  shows "alnum_words (w @ rest) = w # alnum_words rest"
proof -
  from assms(1) obtain c w' where w: "w = c # w'" and c: "is_alnum c"
    and w': "\<forall>x\<in>set w'. is_alnum x"
    by (cases w) (auto simp: alnum_word_def list_all_iff)
  have t: "takeWhile is_alnum (w' @ rest) = w'"
    using w' assms(2) by (cases rest) (auto simp: takeWhile_append2)
  have d: "dropWhile is_alnum (w' @ rest) = rest"
    using w' assms(2) by (cases rest) (auto simp: dropWhile_append2)
  show ?thesis using c t d by (simp add: w)
qed

lemma join_hd:
  "list_all alnum_word ws \<Longrightarrow> ws \<noteq> [] \<Longrightarrow>
   py_join [hyphen] ws \<noteq> [] \<and> is_alnum (hd (py_join [hyphen] ws))"
  by (cases ws) (auto simp: py_join_Cons alnum_word_def list_all_iff hd_append neq_Nil_conv)

lemma alnum_words_join:
  "list_all alnum_word ws \<Longrightarrow> alnum_words (py_join [hyphen] ws) = ws"
proof (induction ws)
  case Nil
  then show ?case by simp
next
  case (Cons w ws)
  show ?case
  proof (cases "ws = []")
    case True
    then show ?thesis using Cons.prems alnum_words_word[of w "[]"] by simp
  next
    case False
    have "alnum_words (w @ hyphen # py_join [hyphen] ws)
        = w # alnum_words (hyphen # py_join [hyphen] ws)"
      using Cons.prems alnum_words_word[of w "hyphen # py_join [hyphen] ws"] by simp
    then show ?thesis using False Cons by (simp add: py_join_Cons)
  qed
qed

lemma join_chars:
  "list_all alnum_word ws \<Longrightarrow> c \<in> set (py_join [hyphen] ws) \<Longrightarrow> is_alnum c \<or> c = hyphen"
  by (induction ws) (auto simp: py_join_Cons alnum_word_def list_all_iff split: if_splits)

lemma join_last:
  "list_all alnum_word ws \<Longrightarrow> ws \<noteq> [] \<Longrightarrow> is_alnum (last (py_join [hyphen] ws))"
proof (induction ws)
  case Nil
  then show ?case by simp
next
  case (Cons w ws)
  show ?case
  proof (cases "ws = []")
    case True
    then show ?thesis using Cons.prems by (simp add: alnum_word_def list_all_iff)
  next
    case False
    then have "py_join [hyphen] ws \<noteq> []" using join_hd[of ws] Cons.prems by simp
    then show ?thesis using False Cons by (simp add: py_join_Cons)
  qed
qed

lemma single_hyphens_Cons:
  "single_hyphens (a # s) \<longleftrightarrow> (s = [] \<or> \<not> (a = hyphen \<and> hd s = hyphen)) \<and> single_hyphens s"
  by (cases s) auto

lemma single_hyphens_append:
  "single_hyphens (xs @ ys) \<longleftrightarrow>
     single_hyphens xs \<and> single_hyphens ys
     \<and> (xs \<noteq> [] \<and> ys \<noteq> [] \<longrightarrow> \<not> (last xs = hyphen \<and> hd ys = hyphen))"
proof (induction xs)
  case Nil
  then show ?case by simp
next
  case (Cons a xs)
  show ?case
  proof (cases "xs = []")
    case True
    then show ?thesis by (auto simp: single_hyphens_Cons)
  next
    case False
    then show ?thesis using Cons by (auto simp: single_hyphens_Cons hd_append)
  qed
qed

lemma single_hyphens_word: "list_all is_alnum w \<Longrightarrow> single_hyphens w"
  by (induction w) (auto simp: single_hyphens_Cons)

lemma join_single: "list_all alnum_word ws \<Longrightarrow> single_hyphens (py_join [hyphen] ws)"
proof (induction ws)
  case Nil
  then show ?case by simp
next
  case (Cons w ws)
  have w: "single_hyphens w" "w \<noteq> []"
    using Cons.prems by (auto simp: alnum_word_def single_hyphens_word)
  then have "is_alnum (last w)"
    using Cons.prems last_in_set[of w] by (auto simp: alnum_word_def list_all_iff)
  then have lw: "last w \<noteq> hyphen" by auto
  show ?case
  proof (cases "ws = []")
    case True
    then show ?thesis using w by simp
  next
    case False
    then have hd: "py_join [hyphen] ws \<noteq> []" "hd (py_join [hyphen] ws) \<noteq> hyphen"
      using join_hd[of ws] Cons.prems by auto
    have "single_hyphens (py_join [hyphen] ws)" using Cons by simp
    then have "single_hyphens (hyphen # py_join [hyphen] ws)"
      using hd by (simp add: single_hyphens_Cons)
    then show ?thesis using w lw False by (simp add: py_join_Cons single_hyphens_append)
  qed
qed


lemma ascii_lower_fixes_slugs: "fixes_slugs ascii_lower"
  by (auto simp: fixes_slugs_def ascii_lower_def is_alnum_def hyphen_def list_all_iff
      intro!: map_idI)

text \<open>
  C7. The slug is a function of the title alone, so the same title always gives the same
  slug. It is the lower-cased title with every run of characters outside \<^verbatim>\<open>[a-z0-9]\<close>
  collapsed to one hyphen and no hyphen at either end: it consists of lower-case ASCII
  letters, digits and hyphens, no two hyphens are adjacent, and it neither starts nor ends
  with a hyphen. Slugifying a slug leaves it unchanged, for every lower-casing function that
  leaves such strings unchanged, as \<^verbatim>\<open>str.lower\<close> does.
\<close>

theorem slugify_deterministic_idempotent:
  assumes "fixes_slugs lower"
  shows "(t' = t \<longrightarrow> slugify lower t' = slugify lower t)
       \<and> slugify lower (slugify lower t) = slugify lower t
       \<and> slugify lower t = slug_spec lower t
       \<and> list_all (\<lambda>c. is_alnum c \<or> c = hyphen) (slugify lower t)
       \<and> single_hyphens (slugify lower t)
       \<and> (slugify lower t \<noteq> [] \<longrightarrow>
            hd (slugify lower t) \<noteq> hyphen \<and> last (slugify lower t) \<noteq> hyphen)"
proof -
  let ?ws = "alnum_words (lower t)"
  have ws: "list_all alnum_word ?ws" by (rule alnum_words_are_words)
  have eq: "slugify lower t = py_join [hyphen] ?ws"
    using slugify_refines[of lower t] by (simp add: slug_spec_def)
  have chars: "list_all (\<lambda>c. is_alnum c \<or> c = hyphen) (slugify lower t)"
    using join_chars[OF ws] eq by (auto simp: list_all_iff)
  have single: "single_hyphens (slugify lower t)" using join_single[OF ws] eq by simp
  have ends: "slugify lower t \<noteq> [] \<longrightarrow>
      hd (slugify lower t) \<noteq> hyphen \<and> last (slugify lower t) \<noteq> hyphen"
  proof
    assume "slugify lower t \<noteq> []"
    then have "?ws \<noteq> []" using eq by auto
    then have "is_alnum (hd (py_join [hyphen] ?ws))" "is_alnum (last (py_join [hyphen] ?ws))"
      using join_hd[OF ws] join_last[OF ws] by auto
    then show "hd (slugify lower t) \<noteq> hyphen \<and> last (slugify lower t) \<noteq> hyphen"
      using eq by auto
  qed
  have "lower (slugify lower t) = slugify lower t"
    using assms chars by (simp add: fixes_slugs_def)
  then have "slugify lower (slugify lower t)
      = py_join [hyphen] (alnum_words (py_join [hyphen] ?ws))"
    using slugify_refines[of lower "slugify lower t"] eq by (simp add: slug_spec_def)
  then have idem: "slugify lower (slugify lower t) = slugify lower t"
    using alnum_words_join[OF ws] eq by simp
  show ?thesis using idem slugify_refines[of lower t] chars single ends by simp
qed

theorem slugify_deterministic_idempotent_witness:
  "fixes_slugs ascii_lower
   \<and> slugify ascii_lower (str ''  Add OAuth2 -- login!! '') = str ''add-oauth2-login''
   \<and> slugify ascii_lower (str ''add-oauth2-login'') = str ''add-oauth2-login''
   \<and> slug_spec ascii_lower (str ''  Add OAuth2 -- login!! '') = str ''add-oauth2-login''
   \<and> list_all (\<lambda>c. is_alnum c \<or> c = hyphen) (str ''add-oauth2-login'')
   \<and> single_hyphens (str ''add-oauth2-login'')
   \<and> hd (str ''add-oauth2-login'') \<noteq> hyphen \<and> last (str ''add-oauth2-login'') \<noteq> hyphen"
proof -
  let ?t = "str ''  Add OAuth2 -- login!! ''"
  let ?s = "str ''add-oauth2-login''"
  have slug: "slugify ascii_lower ?t = ?s"
    by (simp add: slugify_def ascii_lower_def str_def strip_hyphen_def is_alnum_def hyphen_def)
  have ne: "?s \<noteq> []" by (simp add: str_def)
  have "slugify ascii_lower (slugify ascii_lower ?t) = slugify ascii_lower ?t
       \<and> slugify ascii_lower ?t = slug_spec ascii_lower ?t
       \<and> list_all (\<lambda>c. is_alnum c \<or> c = hyphen) (slugify ascii_lower ?t)
       \<and> single_hyphens (slugify ascii_lower ?t)
       \<and> (slugify ascii_lower ?t \<noteq> [] \<longrightarrow>
            hd (slugify ascii_lower ?t) \<noteq> hyphen \<and> last (slugify ascii_lower ?t) \<noteq> hyphen)"
    by (rule slugify_deterministic_idempotent[OF ascii_lower_fixes_slugs, THEN conjunct2])
  then have "slugify ascii_lower ?s = ?s \<and> ?s = slug_spec ascii_lower ?t
       \<and> list_all (\<lambda>c. is_alnum c \<or> c = hyphen) ?s \<and> single_hyphens ?s
       \<and> hd ?s \<noteq> hyphen \<and> last ?s \<noteq> hyphen"
    unfolding slug using ne by blast
  then show ?thesis using slug ascii_lower_fixes_slugs by metis
qed

section \<open>Properties of the router\<close>

lemma role_names_distinct: "distinct role_vocabulary"
  by (simp add: role_vocabulary_def researcher_def security_def architect_def documenter_def str_def)

lemma role_neq [simp]:
  "researcher \<noteq> security" "researcher \<noteq> architect" "researcher \<noteq> documenter"
  "security \<noteq> researcher" "security \<noteq> architect" "security \<noteq> documenter"
  "architect \<noteq> researcher" "architect \<noteq> security" "architect \<noteq> documenter"
  "documenter \<noteq> researcher" "documenter \<noteq> security" "documenter \<noteq> architect"
  by (simp_all add: researcher_def security_def architect_def documenter_def str_def)

lemma py_in_sublist: "py_in w t \<longleftrightarrow> sublist w t"
  by (induction t) (auto simp: sublist_Cons_right)

lemma py_in_at: "prefix w (drop i t) \<Longrightarrow> py_in w t"
proof -
  assume "prefix w (drop i t)"
  then obtain b where "drop i t = w @ b" by (auto simp: prefix_def)
  then have "t = take i t @ w @ b" by (metis append_take_drop_id)
  then show ?thesis unfolding py_in_sublist sublist_def by blast
qed

text \<open>
  C4. Whatever the request, the router's output holds \<open>architect\<close> and \<open>documenter\<close>;
  it holds \<open>researcher\<close> exactly when one of the new-feature keywords occurs in the
  lower-cased serialized request, and \<open>security\<close> exactly when one of the sensitive-data
  keywords does; no role occurs twice, and every role is one of the four.
\<close>

theorem decide_agents_roles:
  assumes "lists_a_set (list_of_set env)"
  shows "architect \<in> set (decide_agents env user_story)
       \<and> documenter \<in> set (decide_agents env user_story)
       \<and> (researcher \<in> set (decide_agents env user_story)
            \<longleftrightarrow> list_ex (\<lambda>word. py_in word (story_text env user_story)) new_feature_keywords)
       \<and> (security \<in> set (decide_agents env user_story)
            \<longleftrightarrow> list_ex (\<lambda>word. py_in word (story_text env user_story)) sensitive_keywords)
       \<and> distinct (decide_agents env user_story)
       \<and> set (decide_agents env user_story) \<subseteq> set role_vocabulary"
  using assms
  by (auto simp: decide_agents_def lists_a_set_def role_vocabulary_def Let_def)

lemma decide_agents_oauth:
  assumes "py_lower env = ascii_lower" "json_dumps env = dumps_compact" "list_of_set env = remdups"
  shows "decide_agents env oauth_story = [researcher, architect, documenter, security]"
proof -
  have "prefix (str ''auth'') (drop 16 (story_text env oauth_story))"
    by (simp add: story_text_def assms oauth_story_def ascii_lower_def str_def quoted_def)
  then have auth: "py_in (str ''auth'') (story_text env oauth_story)" by (rule py_in_at)
  have "str ''auth'' \<in> set new_feature_keywords" by (simp add: new_feature_keywords_def)
  then have 1: "list_ex (\<lambda>word. py_in word (story_text env oauth_story)) new_feature_keywords"
    using auth unfolding list_ex_iff by blast
  have "str ''auth'' \<in> set sensitive_keywords" by (simp add: sensitive_keywords_def)
  then have 2: "list_ex (\<lambda>word. py_in word (story_text env oauth_story)) sensitive_keywords"
    using auth unfolding list_ex_iff by blast
  show ?thesis using 1 2
    by (simp add: decide_agents_def assms)
qed

lemma decide_agents_typo:
  assumes "py_lower env = ascii_lower" "json_dumps env = dumps_compact" "list_of_set env = remdups"
  shows "decide_agents env typo_story = [architect, documenter]"
proof -
  have t: "story_text env typo_story = ascii_lower (dumps_compact typo_story)"
    by (simp add: story_text_def assms)
  have 1: "\<not> list_ex (\<lambda>word. py_in word (story_text env typo_story)) new_feature_keywords"
    unfolding t
    by (simp add: typo_story_def ascii_lower_def str_def quoted_def new_feature_keywords_def)
  have 2: "\<not> list_ex (\<lambda>word. py_in word (story_text env typo_story)) sensitive_keywords"
    unfolding t
    by (simp add: typo_story_def ascii_lower_def str_def quoted_def sensitive_keywords_def)
  show ?thesis using 1 2
    by (simp add: decide_agents_def assms)
qed


theorem decide_agents_roles_witness:
  "lists_a_set (list_of_set (canned_env oauth_story))
   \<and> decide_agents (canned_env oauth_story) oauth_story
       = [researcher, architect, documenter, security]
   \<and> list_ex (\<lambda>word. py_in word (story_text (canned_env oauth_story) oauth_story))
       new_feature_keywords
   \<and> list_ex (\<lambda>word. py_in word (story_text (canned_env oauth_story) oauth_story))
       sensitive_keywords
   \<and> decide_agents (canned_env typo_story) typo_story = [architect, documenter]
   \<and> \<not> list_ex (\<lambda>word. py_in word (story_text (canned_env typo_story) typo_story))
       new_feature_keywords
   \<and> \<not> list_ex (\<lambda>word. py_in word (story_text (canned_env typo_story) typo_story))
       sensitive_keywords"
proof -
  have l: "lists_a_set (list_of_set (canned_env s))" for s
    by (simp add: lists_a_set_def canned_env_def)
  have o: "decide_agents (canned_env oauth_story) oauth_story
      = [researcher, architect, documenter, security]"
    by (rule decide_agents_oauth) (simp_all add: canned_env_def)
  have t: "decide_agents (canned_env typo_story) typo_story = [architect, documenter]"
    by (rule decide_agents_typo) (simp_all add: canned_env_def)
  show ?thesis
    using l[of oauth_story] o t
      decide_agents_roles[OF l[of oauth_story], of oauth_story]
      decide_agents_roles[OF l[of typo_story], of typo_story]
    by simp
qed

section \<open>Properties of the sequencer\<close>

lemma io_bind_cases:
  assumes "io_bind m k h = (r, h')"
  obtains (raised) e where "m h = (Inl e, h')" "r = Inl e"
        | (returned) x h1 where "m h = (Inr x, h1)" "k x h1 = (r, h')"
  using assms by (auto simp: io_bind_def split: prod.splits sum.splits)

lemma generate_trace: "generate env req h = (r, h') \<Longrightarrow> h' = h @ [Create req]"
  by (auto simp: generate_def io_bind_def perform_def io_return_def split: sum.splits)

lemma generate_trace': "snd (generate env req h) = h @ [Create req]"
  using generate_trace[of env req h] by (cases "generate env req h") simp

lemma spawn_researcher_trace:
  "\<exists>evs. snd (spawn_researcher env s h) = h @ SpawnResearcher s # evs \<and> list_all is_create evs"
  by (auto simp: spawn_researcher_def io_bind_def emit_def io_lift_def generate_trace'
      split: sum.splits prod.splits)

lemma spawn_security_trace:
  "\<exists>evs. snd (spawn_security env s h) = h @ SpawnSecurity s # evs \<and> list_all is_create evs"
  by (auto simp: spawn_security_def io_bind_def emit_def io_lift_def generate_trace'
      split: sum.splits prod.splits)

lemma spawn_architect_trace:
  "\<exists>evs. snd (spawn_architect env s a b h) = h @ SpawnArchitect s a b # evs \<and> list_all is_create evs"
  by (auto simp: spawn_architect_def io_bind_def emit_def io_lift_def generate_trace'
      split: sum.splits prod.splits)

lemma spawn_documenter_trace:
  "\<exists>evs. snd (spawn_documenter env s h) = h @ SpawnDocumenter s # evs \<and> list_all is_create evs"
  by (auto simp: spawn_documenter_def io_bind_def emit_def io_lift_def generate_trace'
      split: sum.splits prod.splits)

lemma roles_run_append [simp]: "roles_run (xs @ ys) = roles_run xs @ roles_run ys"
  by (simp add: roles_run_def map_filter_def)

lemma roles_run_Nil [simp]: "roles_run [] = []"
  by (simp add: roles_run_def map_filter_def)

lemma roles_run_Cons: "roles_run (ev # evs) = (case role_call ev of None \<Rightarrow> roles_run evs | Some r \<Rightarrow> r # roles_run evs)"
  by (simp add: roles_run_def map_filter_def split: option.splits)

lemma roles_run_creates: "list_all is_create evs \<Longrightarrow> roles_run evs = []"
  by (induction evs) (auto simp: roles_run_Cons elim: is_create.elims)

lemma creates_no_architect: "list_all is_create evs \<Longrightarrow> SpawnArchitect s a b \<notin> set evs"
  by (auto simp: list_all_iff)

lemma run_role_step:
  assumes run: "run_role agents role spawn results h = (r, h')"
    and tr: "\<exists>evs. snd (spawn h) = h @ ev0 # evs \<and> list_all is_create evs"
    and rc: "role_call ev0 = Some role"
    and fresh: "role \<notin> fst ` set results"
  shows "\<exists>evs. h' = h @ evs
      \<and> roles_run evs = filter (\<lambda>x. x \<in> set agents) [role]
      \<and> (\<forall>s a b. SpawnArchitect s a b \<in> set evs \<longrightarrow> role \<in> set agents \<and> ev0 = SpawnArchitect s a b)
      \<and> ((\<exists>e. r = Inl e \<and> role \<in> set agents)
         \<or> (\<exists>res. r = Inr res
              \<and> map fst res = map fst results @ filter (\<lambda>x. x \<in> set agents) [role]
              \<and> (\<forall>k. k \<noteq> role \<longrightarrow> map_of res k = map_of results k)))"
proof (cases "role \<in> set agents")
  case False
  then show ?thesis using run by (auto simp: run_role_def io_return_def)
next
  case True
  then have "io_bind spawn (\<lambda>out. io_return (AList.update role out results)) h = (r, h')"
    using run by (simp add: run_role_def)
  then show ?thesis
  proof (cases rule: io_bind_cases)
    case (raised e)
    from tr raised(1) obtain evs where "h' = h @ ev0 # evs" "list_all is_create evs" by auto
    then show ?thesis using True raised(2) rc
      by (auto simp: roles_run_Cons roles_run_creates creates_no_architect)
  next
    case (returned out h1)
    from tr returned(1) obtain evs where "h1 = h @ ev0 # evs" "list_all is_create evs" by auto
    moreover have "r = Inr (AList.update role out results)" "h' = h1"
      using returned(2) by (simp_all add: io_return_def)
    moreover have "map fst (AList.update role out results) = map fst results @ [role]"
      using fresh by (simp add: AList.update_keys)
    ultimately show ?thesis using True rc
      by (auto simp: roles_run_Cons roles_run_creates creates_no_architect AList.update_conv')
  qed
qed


lemma scheduled_blocks:
  "scheduled agents = filter (\<lambda>x. x \<in> set agents) [researcher]
     @ filter (\<lambda>x. x \<in> set agents) [security]
     @ filter (\<lambda>x. x \<in> set agents) [architect]
     @ filter (\<lambda>x. x \<in> set agents) [documenter]"
  by (simp add: scheduled_def role_vocabulary_def)

lemma present_iff: "map_of al k \<noteq> None \<longleftrightarrow> k \<in> set (map fst al)"
  by (simp add: map_of_eq_None_iff)

lemma fresh_key:
  "map fst res = ks \<Longrightarrow> set ks \<subseteq> K \<Longrightarrow> role \<notin> K \<Longrightarrow> role \<notin> fst ` set res"
proof -
  assume "map fst res = ks" "set ks \<subseteq> K" "role \<notin> K"
  moreover have "fst ` set res = set (map fst res)" by simp
  ultimately show ?thesis by blast
qed

lemma sequencer_run:
  assumes "spawn_specialists_sequential env s agents h = (r, h')"
  shows "\<exists>evs. h' = h @ SpawnSpecialists s agents # evs
     \<and> prefix (roles_run evs) (scheduled agents)
     \<and> (\<forall>x a b. SpawnArchitect x a b \<in> set evs \<longrightarrow>
           x = s \<and> (a \<noteq> None \<longleftrightarrow> researcher \<in> set agents)
           \<and> (b \<noteq> None \<longleftrightarrow> security \<in> set agents))
     \<and> (\<forall>ctx. r = Inr ctx \<longrightarrow>
           roles_run evs = scheduled agents \<and> map fst ctx = scheduled agents
           \<and> (\<forall>x a b. SpawnArchitect x a b \<in> set evs \<longrightarrow>
                 a = map_of ctx researcher \<and> b = map_of ctx security))"
proof -
  let ?F = "\<lambda>role. filter (\<lambda>x. x \<in> set agents) [role]"
  let ?h0 = "h @ [SpawnSpecialists s agents]"
  have "io_bind (run_role agents researcher (spawn_researcher env s) []) (\<lambda>results.
     io_bind (run_role agents security (spawn_security env s) results) (\<lambda>results.
     io_bind (run_role agents architect
                (spawn_architect env s (map_of results researcher) (map_of results security))
                results) (\<lambda>results.
     io_bind (run_role agents documenter (spawn_documenter env s) results) (\<lambda>results.
     io_return results)))) ?h0 = (r, h')"
    using assms by (simp add: spawn_specialists_sequential_def io_bind_def emit_def)
  then show ?thesis
  proof (cases rule: io_bind_cases)
    case (raised e)
    from run_role_step[OF raised(1) spawn_researcher_trace]
    obtain evs where f: "h' = ?h0 @ evs" "roles_run evs = ?F researcher"
      "\<forall>x a b. SpawnArchitect x a b \<notin> set evs"
      by auto
    show ?thesis
    proof (rule exI[of _ evs], intro conjI)
      show "h' = h @ SpawnSpecialists s agents # evs" using f(1) by simp
      show "prefix (roles_run evs) (scheduled agents)" using f(2) by (simp add: scheduled_blocks)
    qed (use f(3) raised(2) in simp_all)
  next
    case (returned r1 h1)
    from run_role_step[OF returned(1) spawn_researcher_trace]
    obtain evs1 where 1: "h1 = ?h0 @ evs1" "roles_run evs1 = ?F researcher"
      "\<forall>x a b. SpawnArchitect x a b \<notin> set evs1" "map fst r1 = ?F researcher"
      by auto
    have fresh2: "security \<notin> fst ` set r1"
      by (rule fresh_key[OF 1(4), of "{researcher}"]) auto
    from returned(2) show ?thesis
    proof (cases rule: io_bind_cases)
      case (raised e)
      from run_role_step[OF raised(1) spawn_security_trace] fresh2
      obtain evs where f: "h' = h1 @ evs" "roles_run evs = ?F security"
        "\<forall>x a b. SpawnArchitect x a b \<notin> set evs"
        by auto
      show ?thesis
      proof (rule exI[of _ "evs1 @ evs"], intro conjI)
        show "h' = h @ SpawnSpecialists s agents # evs1 @ evs" using f(1) 1(1) by simp
        show "prefix (roles_run (evs1 @ evs)) (scheduled agents)"
          using f(2) 1(2) by (simp add: scheduled_blocks)
      qed (use f(3) 1(3) raised(2) in simp_all)
    next
      case (returned r2 h2)
      from run_role_step[OF returned(1) spawn_security_trace] fresh2 1(4)
      obtain evs2 where 2: "h2 = h1 @ evs2" "roles_run evs2 = ?F security"
        "\<forall>x a b. SpawnArchitect x a b \<notin> set evs2"
        "map fst r2 = ?F researcher @ ?F security"
        by auto
      have in2: "map_of r2 researcher \<noteq> None \<longleftrightarrow> researcher \<in> set agents"
        "map_of r2 security \<noteq> None \<longleftrightarrow> security \<in> set agents"
        unfolding present_iff 2(4) by auto
      let ?a = "map_of r2 researcher" and ?b = "map_of r2 security"
      have fresh3: "architect \<notin> fst ` set r2"
        by (rule fresh_key[OF 2(4), of "{researcher, security}"]) auto
      from returned(2) show ?thesis
      proof (cases rule: io_bind_cases)
        case (raised e)
        from run_role_step[OF raised(1) spawn_architect_trace] fresh3
        obtain evs where f: "h' = h2 @ evs" "roles_run evs = ?F architect"
          "\<forall>x a b. SpawnArchitect x a b \<in> set evs \<longrightarrow> x = s \<and> a = ?a \<and> b = ?b"
          by auto
        show ?thesis
        proof (rule exI[of _ "evs1 @ evs2 @ evs"], intro conjI)
          show "h' = h @ SpawnSpecialists s agents # evs1 @ evs2 @ evs" using f(1) 1(1) 2(1) by simp
          show "prefix (roles_run (evs1 @ evs2 @ evs)) (scheduled agents)"
            using f(2) 1(2) 2(2) by (simp add: scheduled_blocks)
          show "\<forall>x a b. SpawnArchitect x a b \<in> set (evs1 @ evs2 @ evs) \<longrightarrow>
             x = s \<and> (a \<noteq> None \<longleftrightarrow> researcher \<in> set agents)
             \<and> (b \<noteq> None \<longleftrightarrow> security \<in> set agents)"
            using f(3) 1(3) 2(3) in2 by (metis Un_iff set_append)
        qed (use raised(2) in simp)
      next
        case (returned r3 h3)
        from run_role_step[OF returned(1) spawn_architect_trace] fresh3
        obtain evs3 where 3: "h3 = h2 @ evs3" "roles_run evs3 = ?F architect"
          "\<forall>x a b. SpawnArchitect x a b \<in> set evs3 \<longrightarrow> x = s \<and> a = ?a \<and> b = ?b"
          "map fst r3 = map fst r2 @ ?F architect"
          "\<forall>k. k \<noteq> architect \<longrightarrow> map_of r3 k = map_of r2 k"
          by auto
        have keys3: "map fst r3 = ?F researcher @ ?F security @ ?F architect"
          using 3(4) 2(4) by simp
        have fresh4: "documenter \<notin> fst ` set r3"
          by (rule fresh_key[OF keys3, of "{researcher, security, architect}"]) auto
        have arch: "\<forall>x a b. SpawnArchitect x a b \<in> set (evs1 @ evs2 @ evs3) \<longrightarrow>
             x = s \<and> a = ?a \<and> b = ?b"
          using 1(3) 2(3) 3(3) by (metis Un_iff set_append)
        from returned(2) show ?thesis
        proof (cases rule: io_bind_cases)
          case (raised e)
          from run_role_step[OF raised(1) spawn_documenter_trace] fresh4
          obtain evs where f: "h' = h3 @ evs" "roles_run evs = ?F documenter"
            "\<forall>x a b. SpawnArchitect x a b \<notin> set evs"
            by auto
          show ?thesis
          proof (rule exI[of _ "(evs1 @ evs2 @ evs3) @ evs"], intro conjI)
            show "h' = h @ SpawnSpecialists s agents # (evs1 @ evs2 @ evs3) @ evs"
              using f(1) 1(1) 2(1) 3(1) by simp
            show "prefix (roles_run ((evs1 @ evs2 @ evs3) @ evs)) (scheduled agents)"
              using f(2) 1(2) 2(2) 3(2) by (simp add: scheduled_blocks)
            show "\<forall>x a b. SpawnArchitect x a b \<in> set ((evs1 @ evs2 @ evs3) @ evs) \<longrightarrow>
               x = s \<and> (a \<noteq> None \<longleftrightarrow> researcher \<in> set agents)
               \<and> (b \<noteq> None \<longleftrightarrow> security \<in> set agents)"
              using f(3) arch in2 by (metis Un_iff set_append)
          qed (use raised(2) in simp)
        next
          case (returned r4 h4)
          from run_role_step[OF returned(1) spawn_documenter_trace] fresh4
          obtain evs4 where 4: "h4 = h3 @ evs4" "roles_run evs4 = ?F documenter"
            "\<forall>x a b. SpawnArchitect x a b \<notin> set evs4"
            "map fst r4 = map fst r3 @ ?F documenter"
            "\<forall>k. k \<noteq> documenter \<longrightarrow> map_of r4 k = map_of r3 k"
            by auto
          have res: "r = Inr r4" "h' = h4" using returned(2) by (simp_all add: io_return_def)
          have same: "map_of r4 researcher = ?a" "map_of r4 security = ?b"
            using 3(5) 4(5) by simp_all
          have arch4: "\<forall>x a b. SpawnArchitect x a b \<in> set ((evs1 @ evs2 @ evs3) @ evs4) \<longrightarrow>
               x = s \<and> a = ?a \<and> b = ?b"
            using 4(3) arch by (metis Un_iff set_append)
          show ?thesis
          proof (rule exI[of _ "(evs1 @ evs2 @ evs3) @ evs4"], intro conjI)
            show "h' = h @ SpawnSpecialists s agents # (evs1 @ evs2 @ evs3) @ evs4"
              using res(2) 1(1) 2(1) 3(1) 4(1) by simp
            show "prefix (roles_run ((evs1 @ evs2 @ evs3) @ evs4)) (scheduled agents)"
              using 1(2) 2(2) 3(2) 4(2) by (simp add: scheduled_blocks)
            show "\<forall>x a b. SpawnArchitect x a b \<in> set ((evs1 @ evs2 @ evs3) @ evs4) \<longrightarrow>
               x = s \<and> (a \<noteq> None \<longleftrightarrow> researcher \<in> set agents)
               \<and> (b \<noteq> None \<longleftrightarrow> security \<in> set agents)"
              using arch4 in2 by metis
            show "\<forall>ctx. r = Inr ctx \<longrightarrow>
               roles_run ((evs1 @ evs2 @ evs3) @ evs4) = scheduled agents
               \<and> map fst ctx = scheduled agents
               \<and> (\<forall>x a b. SpawnArchitect x a b \<in> set ((evs1 @ evs2 @ evs3) @ evs4) \<longrightarrow>
                     a = map_of ctx researcher \<and> b = map_of ctx security)"
            proof (intro allI impI conjI)
              fix ctx assume "r = Inr ctx"
              then have ctx: "ctx = r4" using res(1) by simp
              show "roles_run ((evs1 @ evs2 @ evs3) @ evs4) = scheduled agents"
                using 1(2) 2(2) 3(2) 4(2) by (simp add: scheduled_blocks)
              show "map fst ctx = scheduled agents"
                using ctx keys3 4(4) by (simp add: scheduled_blocks)
              show "\<And>x a b. SpawnArchitect x a b \<in> set ((evs1 @ evs2 @ evs3) @ evs4) \<Longrightarrow>
                 a = map_of ctx researcher"
                using arch4 same ctx by metis
              show "\<And>x a b. SpawnArchitect x a b \<in> set ((evs1 @ evs2 @ evs3) @ evs4) \<Longrightarrow>
                 b = map_of ctx security"
                using arch4 same ctx by metis
            qed
          qed
        qed
      qed
    qed
  qed
qed


text \<open>
  C5. In every run of the sequencer the role executors are entered in the order researcher,
  security, architect, documenter, each only if it is in the role set, and a run that returns
  has entered every role of the set. Each role is awaited before the next block starts, so
  when the architect is entered each of its two optional inputs is present exactly when that
  role is in the role set, and it is the output that role returned: the entry the returned
  context holds for it.
\<close>

theorem sequencer_order:
  assumes "spawn_specialists_sequential env user_story agents h = (r, h')"
  shows "prefix h h'
     \<and> prefix (roles_run (added h h')) (scheduled agents)
     \<and> (\<forall>ctx. r = Inr ctx \<longrightarrow> roles_run (added h h') = scheduled agents)
     \<and> (\<forall>x a b. SpawnArchitect x a b \<in> set (added h h') \<longrightarrow>
           x = user_story
           \<and> (a \<noteq> None \<longleftrightarrow> researcher \<in> set agents)
           \<and> (b \<noteq> None \<longleftrightarrow> security \<in> set agents)
           \<and> (\<forall>ctx. r = Inr ctx \<longrightarrow> a = map_of ctx researcher \<and> b = map_of ctx security))"
proof -
  from sequencer_run[OF assms] obtain evs where all:
    "h' = h @ SpawnSpecialists user_story agents # evs
     \<and> prefix (roles_run evs) (scheduled agents)
     \<and> (\<forall>x a b. SpawnArchitect x a b \<in> set evs \<longrightarrow>
           x = user_story \<and> (a \<noteq> None \<longleftrightarrow> researcher \<in> set agents)
           \<and> (b \<noteq> None \<longleftrightarrow> security \<in> set agents))
     \<and> (\<forall>ctx. r = Inr ctx \<longrightarrow>
           roles_run evs = scheduled agents \<and> map fst ctx = scheduled agents
           \<and> (\<forall>x a b. SpawnArchitect x a b \<in> set evs \<longrightarrow>
                 a = map_of ctx researcher \<and> b = map_of ctx security))"
    by (rule exE)
  note h' = all[THEN conjunct1]
    and order = all[THEN conjunct2, THEN conjunct1]
    and present = all[THEN conjunct2, THEN conjunct2, THEN conjunct1]
    and returned = all[THEN conjunct2, THEN conjunct2, THEN conjunct2]
  have new: "added h h' = SpawnSpecialists user_story agents # evs"
    by (simp add: added_def h')
  have roles: "roles_run (added h h') = roles_run evs"
    by (simp add: new roles_run_Cons)
  have arch: "SpawnArchitect x a b \<in> set (added h h') \<longleftrightarrow> SpawnArchitect x a b \<in> set evs"
    for x a b
    by (simp add: new)
  have 1: "prefix h h'" by (simp add: h')
  have 2: "prefix (roles_run (added h h')) (scheduled agents)"
    using order by (simp only: roles)
  have 3: "\<forall>ctx. r = Inr ctx \<longrightarrow> roles_run (added h h') = scheduled agents"
    using returned by (simp only: roles) simp
  have 4: "\<forall>x a b. SpawnArchitect x a b \<in> set (added h h') \<longrightarrow>
           x = user_story
           \<and> (a \<noteq> None \<longleftrightarrow> researcher \<in> set agents)
           \<and> (b \<noteq> None \<longleftrightarrow> security \<in> set agents)
           \<and> (\<forall>ctx. r = Inr ctx \<longrightarrow> a = map_of ctx researcher \<and> b = map_of ctx security)"
    unfolding arch using present returned by simp
  show ?thesis using 1 2 3 4 by (simp only: simp_thms)
qed

text \<open>
  C6. The keys of the context a run of the sequencer returns are the roles of the role set
  that belong to the vocabulary, each once, in the order of execution. So for a role set,
  which is drawn from the vocabulary, the keys are exactly the role set: one entry for each
  of its roles and none for an absent role.
\<close>

theorem sequencer_context_keys:
  assumes "spawn_specialists_sequential env user_story agents h = (Inr ctx, h')"
  shows "map fst ctx = scheduled agents
     \<and> distinct (map fst ctx)
     \<and> fst ` set ctx = set agents \<inter> set role_vocabulary
     \<and> (set agents \<subseteq> set role_vocabulary \<longrightarrow> fst ` set ctx = set agents)"
proof -
  have keys: "map fst ctx = scheduled agents"
    using sequencer_run[OF assms] by (elim exE conjE) simp
  have d: "distinct (scheduled agents)"
    using role_names_distinct by (simp add: scheduled_def)
  have "fst ` set ctx = set (map fst ctx)" by simp
  also have "\<dots> = set (scheduled agents)" by (simp only: keys)
  also have "\<dots> = set agents \<inter> set role_vocabulary"
    by (auto simp: scheduled_def)
  finally have k: "fst ` set ctx = set agents \<inter> set role_vocabulary" .
  then have "set agents \<subseteq> set role_vocabulary \<longrightarrow> fst ` set ctx = set agents" by blast
  then show ?thesis using keys d k by (simp only: simp_thms)
qed

lemma canned_fields [simp]:
  "py_lower (canned_env s) = ascii_lower"
  "json_dumps (canned_env s) = dumps_compact"
  "json_dumps_indent2 (canned_env s) = dumps_indent 0"
  "json_loads (canned_env s) = (\<lambda>t. if t = dumps_compact s then Inr s else Inl JSONDecodeError)"
  "list_of_set (canned_env s) = remdups"
  "prompts (canned_env s) = canned_prompts"
  "github_token (canned_env s) = str ''secret''"
  "gettempdir (canned_env s) = str ''/tmp''"
  "messages_create (canned_env s) = canned_generation s"
  "requests_get (canned_env s) = (\<lambda>h url headers. Inr head_response)"
  "requests_post (canned_env s)
     = (\<lambda>h url headers payload. Inr \<lparr>status_code = 201, json_body = Inr payload\<rparr>)"
  "write_text (canned_env s) = (\<lambda>h dir name text. Inr ())"
  by (simp_all add: canned_env_def)

lemmas io_defs = io_bind_def io_return_def io_lift_def io_raise_def emit_def perform_def

lemmas sequencer_defs = spawn_specialists_sequential_def run_role_def spawn_researcher_def
  spawn_security_def spawn_architect_def spawn_documenter_def generate_def prompt_of_def
  joined_text_def canned_generation_def canned_prompts_def map_filter_def

lemma canned_sequencer_result:
  "fst (spawn_specialists_sequential (canned_env s) s
          [researcher, architect, documenter, security] h)
     = Inr [(researcher, str ''Output for: '' @ str ''You research.''),
            (security, str ''Output for: '' @ str ''You are a security expert.''),
            (architect, str ''Output for: '' @ str ''You design.''),
            (documenter, str ''Output for: '' @ str ''You document.'')]"
  by (simp add: sequencer_defs io_defs)

theorem sequencer_order_witness:
  "roles_run (added [] (snd (spawn_specialists_sequential (canned_env oauth_story) oauth_story
        [researcher, architect, documenter, security] [])))
     = [researcher, security, architect, documenter]
   \<and> List.map_filter architect_inputs
        (snd (spawn_specialists_sequential (canned_env oauth_story) oauth_story
           [researcher, architect, documenter, security] []))
     = [(oauth_story, Some (str ''Output for: '' @ str ''You research.''),
          Some (str ''Output for: '' @ str ''You are a security expert.''))]"
proof -
  let ?all = "[researcher, architect, documenter, security]"
  let ?run = "spawn_specialists_sequential (canned_env oauth_story) oauth_story ?all []"
  let ?ctx = "[(researcher, str ''Output for: '' @ str ''You research.''),
            (security, str ''Output for: '' @ str ''You are a security expert.''),
            (architect, str ''Output for: '' @ str ''You design.''),
            (documenter, str ''Output for: '' @ str ''You document.'')]"
  have run: "?run = (Inr ?ctx, snd ?run)"
    using canned_sequencer_result[of oauth_story "[]"] by (cases ?run) simp
  have "scheduled ?all = [researcher, security, architect, documenter]"
    by (simp add: scheduled_def role_vocabulary_def)
  then have "roles_run (added [] (snd ?run)) = [researcher, security, architect, documenter]"
    using sequencer_order[OF run] by simp
  moreover have "List.map_filter architect_inputs (snd ?run)
     = [(oauth_story, Some (str ''Output for: '' @ str ''You research.''),
          Some (str ''Output for: '' @ str ''You are a security expert.''))]"
    by (simp add: sequencer_defs io_defs)
  ultimately show ?thesis by simp
qed


theorem sequencer_context_keys_witness:
  "set [researcher, architect, documenter, security] \<subseteq> set role_vocabulary
   \<and> fst (spawn_specialists_sequential (canned_env oauth_story) oauth_story
        [researcher, architect, documenter, security] [])
     = Inr [(researcher, str ''Output for: '' @ str ''You research.''),
            (security, str ''Output for: '' @ str ''You are a security expert.''),
            (architect, str ''Output for: '' @ str ''You design.''),
            (documenter, str ''Output for: '' @ str ''You document.'')]
   \<and> fst ` set [(researcher, str ''Output for: '' @ str ''You research.''),
            (security, str ''Output for: '' @ str ''You are a security expert.''),
            (architect, str ''Output for: '' @ str ''You design.''),
            (documenter, str ''Output for: '' @ str ''You document.'')]
     = set [researcher, architect, documenter, security]"
proof -
  let ?all = "[researcher, architect, documenter, security]"
  let ?run = "spawn_specialists_sequential (canned_env oauth_story) oauth_story ?all []"
  let ?ctx = "[(researcher, str ''Output for: '' @ str ''You research.''),
            (security, str ''Output for: '' @ str ''You are a security expert.''),
            (architect, str ''Output for: '' @ str ''You design.''),
            (documenter, str ''Output for: '' @ str ''You document.'')]"
  have res: "fst ?run = Inr ?ctx" by (rule canned_sequencer_result)
  then have run: "?run = (Inr ?ctx, snd ?run)" by (cases ?run) simp
  have sub: "set ?all \<subseteq> set role_vocabulary" by (simp add: role_vocabulary_def)
  have "set ?all \<subseteq> set role_vocabulary \<longrightarrow> fst ` set ?ctx = set ?all"
    using sequencer_context_keys[OF run] by (elim conjE)
  then have "fst ` set ?ctx = set ?all" using sub by (rule mp)
  then show ?thesis using sub res by (simp only: simp_thms)
qed

section \<open>Traces of the stages\<close>

lemma adds_return: "adds P (io_return x)"
  by (simp add: adds_def io_return_def)

lemma adds_raise: "adds P (io_raise e)"
  by (simp add: adds_def io_raise_def)

lemma adds_lift: "adds P (io_lift v)"
  by (simp add: adds_def io_lift_def)

lemma adds_emit: "P ev \<Longrightarrow> adds P (emit ev)"
  by (simp add: adds_def emit_def)

lemma adds_perform: "P ev \<Longrightarrow> adds P (perform f ev)"
  by (simp add: adds_def perform_def)

lemma adds_bind:
  assumes "adds P m" and "\<And>x. adds P (k x)"
  shows "adds P (io_bind m k)"
proof (unfold adds_def, intro allI)
  fix h
  from assms(1) obtain evs where m: "snd (m h) = h @ evs" "list_all P evs"
    unfolding adds_def by blast
  show "\<exists>evs. snd (io_bind m k h) = h @ evs \<and> list_all P evs"
  proof (cases "m h")
    case (Pair r h1)
    then have h1: "h1 = h @ evs" using m(1) by simp
    show ?thesis
    proof (cases r)
      case (Inl e)
      then show ?thesis using Pair h1 m(2) by (simp add: io_bind_def)
    next
      case (Inr x)
      from assms(2)[of x] obtain evs' where "snd (k x h1) = h1 @ evs'" "list_all P evs'"
        unfolding adds_def by blast
      then show ?thesis using Pair Inr h1 m(2) by (simp add: io_bind_def)
    qed
  qed
qed

lemma adds_run_role: "adds P spawn \<Longrightarrow> adds P (run_role agents role spawn results)"
  by (simp add: run_role_def adds_bind adds_return)

lemma adds_generate: "adds role_event (generate env req)"
  by (simp add: generate_def adds_bind adds_perform adds_return role_event_def)

lemma adds_role_executors:
  "adds role_event (spawn_researcher env s)"
  "adds role_event (spawn_security env s)"
  "adds role_event (spawn_architect env s a b)"
  "adds role_event (spawn_documenter env s)"
  by (simp_all add: spawn_researcher_def spawn_security_def spawn_architect_def
      spawn_documenter_def adds_bind adds_emit adds_lift adds_generate role_event_def)

lemma sequencer_events:
  "\<exists>evs. snd (spawn_specialists_sequential env s agents h) = h @ SpawnSpecialists s agents # evs
     \<and> list_all role_event evs"
proof -
  have "adds role_event
     (io_bind (run_role agents researcher (spawn_researcher env s) []) (\<lambda>results.
      io_bind (run_role agents security (spawn_security env s) results) (\<lambda>results.
      io_bind (run_role agents architect
                (spawn_architect env s (map_of results researcher) (map_of results security))
                results) (\<lambda>results.
      io_bind (run_role agents documenter (spawn_documenter env s) results) (\<lambda>results.
      io_return results)))))"
    by (intro adds_bind adds_run_role adds_role_executors adds_return)
  then obtain evs where "snd ((io_bind (run_role agents researcher (spawn_researcher env s) []) (\<lambda>results.
      io_bind (run_role agents security (spawn_security env s) results) (\<lambda>results.
      io_bind (run_role agents architect
                (spawn_architect env s (map_of results researcher) (map_of results security))
                results) (\<lambda>results.
      io_bind (run_role agents documenter (spawn_documenter env s) results) (\<lambda>results.
      io_return results))))) (h @ [SpawnSpecialists s agents]))
      = (h @ [SpawnSpecialists s agents]) @ evs" "list_all role_event evs"
    unfolding adds_def by blast
  then show ?thesis
    by (simp add: spawn_specialists_sequential_def io_bind_def emit_def)
qed

lemma extractor_events:
  "snd (create_user_story env ui h) = h @ [CreateUserStory ui, Create (user_story_request ui)]"
  by (simp add: create_user_story_def io_bind_def emit_def perform_def io_lift_def io_raise_def
      split: sum.splits option.splits)

lemma provisioner_events:
  "\<exists>tail. snd (create_branch env repo b h)
       = h @ CreateBranch repo b # Get (head_url repo) (request_headers env) # tail
     \<and> list_all is_post tail
     \<and> (\<forall>x. fst (create_branch env repo b h) = Inr x \<longrightarrow> tail \<noteq> [])"
  by (simp add: create_branch_def io_bind_def emit_def perform_def io_lift_def io_return_def
      split: sum.splits)

lemma publisher_events:
  "snd (execute_gsd env s ctx repo b h)
     = h @ [ExecuteGsd s ctx repo b,
            WriteText (gettempdir env) context_file_name
              (json_dumps_indent2 env (handoff_payload s ctx))]"
  by (simp add: execute_gsd_def io_bind_def emit_def perform_def)

lemma watcher_run:
  "wait_for_pr repo b h
     = (Inr (str ''https://github.com/'' @ repo @ str ''/pull/XXX''), h @ [WaitForPr repo b])"
  by (simp add: wait_for_pr_def io_bind_def emit_def io_return_def)

section \<open>The cases of a run\<close>

lemma bind_return: "io_bind (io_return x) k = k x"
  by (rule ext) (simp add: io_bind_def io_return_def)

lemma bind_lift_Inr: "io_bind (io_lift (Inr x)) k = k x"
  by (rule ext) (simp add: io_bind_def io_lift_def)

lemma bind_lift_Inl: "io_bind (io_lift (Inl e)) k = io_raise e"
  by (rule ext) (simp add: io_bind_def io_lift_def io_raise_def)

lemma bind_emit: "io_bind (emit ev) k h = k () (h @ [ev])"
  by (simp add: io_bind_def emit_def)

lemma handle_request_cases:
  assumes "handle_request env ui repo h = (r, h')"
  obtains
    (extractor_raised) e where
      "create_user_story env ui h = (Inl e, h')" "r = Inl e"
  | (no_summary) story e where
      "create_user_story env ui h = (Inr story, h')"
      "subscript story (str ''summary'') = Inl e" "r = Inl e"
  | (no_title) story h1 e where
      "create_user_story env ui h = (Inr story, h1)"
      "subscript story (str ''title'') = Inl e" "r = Inl e" "h' = h1 @ [DecideAgents story]"
  | (title_not_str) story h1 title e where
      "create_user_story env ui h = (Inr story, h1)"
      "subscript story (str ''title'') = Inr title"
      "slugify_value env title = Inl e" "r = Inl e"
      "h' = h1 @ [DecideAgents story, Slugify title]"
  | (provisioner_raised) story h1 title slug e where
      "create_user_story env ui h = (Inr story, h1)"
      "subscript story (str ''title'') = Inr title"
      "slugify_value env title = Inr slug"
      "create_branch env repo (str ''feature/'' @ slug) (h1 @ [DecideAgents story, Slugify title])
         = (Inl e, h')" "r = Inl e"
  | (sequencer_raised) story h1 title slug h2 e where
      "create_user_story env ui h = (Inr story, h1)"
      "subscript story (str ''title'') = Inr title"
      "slugify_value env title = Inr slug"
      "create_branch env repo (str ''feature/'' @ slug) (h1 @ [DecideAgents story, Slugify title])
         = (Inr (), h2)"
      "spawn_specialists_sequential env story (decide_agents env story) h2 = (Inl e, h')"
      "r = Inl e"
  | (publisher_raised) story h1 title slug h2 ctx h3 e where
      "create_user_story env ui h = (Inr story, h1)"
      "subscript story (str ''title'') = Inr title"
      "slugify_value env title = Inr slug"
      "create_branch env repo (str ''feature/'' @ slug) (h1 @ [DecideAgents story, Slugify title])
         = (Inr (), h2)"
      "spawn_specialists_sequential env story (decide_agents env story) h2 = (Inr ctx, h3)"
      "execute_gsd env story ctx repo (str ''feature/'' @ slug) h3 = (Inl e, h')"
      "r = Inl e"
  | (returned) story h1 title slug h2 ctx h3 h4 where
      "create_user_story env ui h = (Inr story, h1)"
      "subscript story (str ''title'') = Inr title"
      "slugify_value env title = Inr slug"
      "create_branch env repo (str ''feature/'' @ slug) (h1 @ [DecideAgents story, Slugify title])
         = (Inr (), h2)"
      "spawn_specialists_sequential env story (decide_agents env story) h2 = (Inr ctx, h3)"
      "execute_gsd env story ctx repo (str ''feature/'' @ slug) h3 = (Inr (), h4)"
      "r = Inr (str ''https://github.com/'' @ repo @ str ''/pull/XXX'')"
      "h' = h4 @ [WaitForPr repo (str ''feature/'' @ slug)]"
proof -
  from assms have "io_bind (create_user_story env ui) (\<lambda>user_story.
     io_bind (io_lift (subscript user_story (str ''summary''))) (\<lambda>_.
     io_bind (emit (DecideAgents user_story)) (\<lambda>_.
     io_bind (io_return (decide_agents env user_story)) (\<lambda>agents_needed.
     io_bind (io_lift (subscript user_story (str ''title''))) (\<lambda>title.
     io_bind (emit (Slugify title)) (\<lambda>_.
     io_bind (io_lift (slugify_value env title)) (\<lambda>slug.
     io_bind (io_return (str ''feature/'' @ slug)) (\<lambda>branch_name.
     io_bind (create_branch env repo branch_name) (\<lambda>_.
     io_bind (spawn_specialists_sequential env user_story agents_needed) (\<lambda>specialist_results.
     io_bind (execute_gsd env user_story specialist_results repo branch_name) (\<lambda>_.
     io_bind (wait_for_pr repo branch_name) (\<lambda>pr_url.
     io_return pr_url)))))))))))) h = (r, h')"
    by (simp only: handle_request_def)
  then show thesis
  proof (cases rule: io_bind_cases)
    case (raised e)
    then show thesis by (rule extractor_raised)
  next
    case story: (returned story h1)
    show thesis
    proof (cases "subscript story (str ''summary'')")
      case (Inl e)
      then have "r = Inl e" "h' = h1" using story(2) by (simp_all add: bind_lift_Inl io_raise_def)
      then show thesis using story(1) Inl no_summary by simp
    next
      case summary: (Inr summary)
      show thesis
      proof (cases "subscript story (str ''title'')")
        case (Inl e)
        then have "r = Inl e" "h' = h1 @ [DecideAgents story]"
          using story(2) summary
          by (simp_all add: bind_lift_Inl bind_lift_Inr bind_emit bind_return io_raise_def)
        then show thesis using story(1) Inl no_title by simp
      next
        case title: (Inr title)
        let ?h = "h1 @ [DecideAgents story, Slugify title]"
        show thesis
        proof (cases "slugify_value env title")
          case (Inl e)
          then have "r = Inl e" "h' = ?h"
            using story(2) summary title
            by (simp_all add: bind_lift_Inl bind_lift_Inr bind_emit bind_return io_raise_def)
          then show thesis using story(1) title Inl title_not_str by simp
        next
          case slug: (Inr slug)
          let ?b = "str ''feature/'' @ slug"
          have "io_bind (create_branch env repo ?b) (\<lambda>_.
             io_bind (spawn_specialists_sequential env story (decide_agents env story))
               (\<lambda>specialist_results.
             io_bind (execute_gsd env story specialist_results repo ?b) (\<lambda>_.
             io_bind (wait_for_pr repo ?b) (\<lambda>pr_url.
             io_return pr_url)))) ?h = (r, h')"
            using story(2) summary title slug
            by (simp add: bind_lift_Inr bind_emit bind_return)
          then show thesis
          proof (cases rule: io_bind_cases)
            case (raised e)
            then show thesis using story(1) title slug provisioner_raised by simp
          next
            case branch: (returned u h2)
            from branch(2) show thesis
            proof (cases rule: io_bind_cases)
              case (raised e)
              then show thesis using story(1) title slug branch(1) sequencer_raised by simp
            next
              case seq: (returned ctx h3)
              from seq(2) show thesis
              proof (cases rule: io_bind_cases)
                case (raised e)
                then show thesis
                  using story(1) title slug branch(1) seq(1) publisher_raised by simp
              next
                case pub: (returned v h4)
                then have "r = Inr (str ''https://github.com/'' @ repo @ str ''/pull/XXX'')"
                  "h' = h4 @ [WaitForPr repo ?b]"
                  by (simp_all add: watcher_run io_bind_def io_return_def)
                then show thesis
                  using story(1) title slug branch(1) seq(1) pub(1) returned by simp
              qed
            qed
          qed
        qed
      qed
    qed
  qed
qed

section \<open>Properties of the extractor\<close>

lemma not_lbrace_rbrace [simp]: "lbrace \<noteq> rbrace" "rbrace \<noteq> lbrace"
  by (simp_all add: lbrace_def rbrace_def)

lemma re_search_braces_match:
  assumes "lbrace \<notin> set pre" and "rbrace \<notin> set post"
  shows "re_search_braces (pre @ lbrace # mid @ rbrace # post) = Some (lbrace # mid @ [rbrace])"
proof -
  have 1: "dropWhile (\<lambda>c. c \<noteq> lbrace) (pre @ lbrace # mid @ rbrace # post)
      = lbrace # mid @ rbrace # post"
    using assms(1) by (auto simp: dropWhile_append)
  have "rev (lbrace # mid @ rbrace # post) = rev post @ rbrace # rev mid @ [lbrace]" by simp
  moreover have "dropWhile (\<lambda>c. c \<noteq> rbrace) (rev post @ rbrace # rev mid @ [lbrace])
      = rbrace # rev mid @ [lbrace]"
    using assms(2) by (auto simp: dropWhile_append)
  ultimately have 2: "rev (dropWhile (\<lambda>c. c \<noteq> rbrace) (rev (lbrace # mid @ rbrace # post)))
      = lbrace # mid @ [rbrace]"
    by simp
  show ?thesis unfolding re_search_braces_def 1 Let_def 2 by simp
qed

lemma re_search_braces_None:
  "re_search_braces content = None
     \<longleftrightarrow> rbrace \<notin> set (dropWhile (\<lambda>c. c \<noteq> lbrace) content)"
  by (auto simp: re_search_braces_def Let_def dropWhile_eq_Nil_conv)

lemma re_search_braces_Some:
  assumes "re_search_braces content = Some m"
  shows "\<exists>pre mid post. content = pre @ m @ post \<and> m = lbrace # mid @ [rbrace]
     \<and> lbrace \<notin> set pre \<and> rbrace \<notin> set post"
proof -
  let ?pre = "takeWhile (\<lambda>c. c \<noteq> lbrace) content"
  let ?t = "dropWhile (\<lambda>c. c \<noteq> lbrace) content"
  let ?post = "rev (takeWhile (\<lambda>c. c \<noteq> rbrace) (rev ?t))"
  have m: "m = rev (dropWhile (\<lambda>c. c \<noteq> rbrace) (rev ?t))" and ne: "m \<noteq> []"
    using assms by (auto simp: re_search_braces_def Let_def split: if_splits)
  have t: "?t = m @ ?post"
  proof -
    have "rev (takeWhile (\<lambda>c. c \<noteq> rbrace) (rev ?t) @ dropWhile (\<lambda>c. c \<noteq> rbrace) (rev ?t))
        = rev (rev ?t)"
      by (simp only: takeWhile_dropWhile_id)
    then have "rev (dropWhile (\<lambda>c. c \<noteq> rbrace) (rev ?t))
        @ rev (takeWhile (\<lambda>c. c \<noteq> rbrace) (rev ?t)) = ?t"
      by (simp only: rev_append rev_rev_ident)
    then show ?thesis unfolding m by simp
  qed
  have content: "content = ?pre @ m @ ?post"
    using t takeWhile_dropWhile_id[of "\<lambda>c. c \<noteq> lbrace" content] by simp
  have pre: "lbrace \<notin> set ?pre" by (auto dest: set_takeWhileD)
  have post: "rbrace \<notin> set ?post" by (auto dest: set_takeWhileD)
  have "?t \<noteq> []"
  proof
    assume "?t = []"
    then have "m @ ?post = []" using t by (simp only:)
    then show False using ne by simp
  qed
  then have hd: "hd ?t = lbrace" using hd_dropWhile[of "\<lambda>c. c \<noteq> lbrace" content] by simp
  then have hdm: "hd m = lbrace" using t ne by (metis hd_append2)
  have "rev m \<noteq> []" using ne by simp
  then have "hd (rev m) = rbrace"
    using hd_dropWhile[of "\<lambda>c. c \<noteq> rbrace" "rev ?t"] unfolding m by simp
  then have lastm: "last m = rbrace" using ne by (simp add: hd_rev)
  obtain a as where Cons: "m = a # as" using ne by (cases m) auto
  then have a: "a = lbrace" using hdm by simp
  have as: "as \<noteq> []" using Cons a lastm by auto
  then have "last as = rbrace" using Cons lastm by simp
  then have "as = butlast as @ [rbrace]" using as append_butlast_last_id[of as] by simp
  then have "m = lbrace # butlast as @ [rbrace]" using Cons a by simp
  then show ?thesis using content pre post by blast
qed


lemma create_user_story_text:
  assumes "messages_create env (h @ [CreateUserStory ui]) (user_story_request ui)
     = Inr (TextBlock content # blocks)"
  shows "fst (create_user_story env ui h)
     = (case re_search_braces content of
          None \<Rightarrow> Inl (ValueError (str ''No JSON found in response''))
        | Some m \<Rightarrow> json_loads env m)"
  using assms
  by (simp add: create_user_story_def io_bind_def emit_def perform_def io_lift_def io_raise_def
      split: option.splits)

lemma spec_errors_absent:
  "exn_class (ValueError m) \<notin> set specification_errors"
  "exn_class JSONDecodeError \<notin> set specification_errors"
  "exn_class (KeyError k) \<notin> set specification_errors"
  "exn_class TypeError \<notin> set specification_errors"
  "exn_class AttributeError \<notin> set specification_errors"
  "exn_class IndexError \<notin> set specification_errors"
  by (simp_all add: specification_errors_def str_def)

text \<open>
  C1, as the program has it. When the generator's first block is text, the extractor takes
  the text from the first \<^verbatim>\<open>{\<close> to the last \<^verbatim>\<open>}\<close> and returns what \<^verbatim>\<open>json.loads\<close> gives for
  it: the parsed value, with no field validated, or the parser's error. So for a text that
  holds one JSON object with no \<^verbatim>\<open>{\<close> before it and no \<^verbatim>\<open>}\<close> after it, the result is that
  object parsed. When no \<^verbatim>\<open>}\<close> follows the first \<^verbatim>\<open>{\<close>, it raises \<^verbatim>\<open>ValueError\<close> with the
  message \<^verbatim>\<open>No JSON found in response\<close>, which is none of the specification's error classes.
\<close>

theorem create_user_story_extracts:
  assumes "messages_create env (h @ [CreateUserStory user_input]) (user_story_request user_input)
     = Inr (TextBlock content # blocks)"
  shows "(\<forall>pre mid post.
            content = pre @ lbrace # mid @ rbrace # post \<and> lbrace \<notin> set pre \<and> rbrace \<notin> set post
            \<longrightarrow> fst (create_user_story env user_input h) = json_loads env (lbrace # mid @ [rbrace]))
       \<and> (rbrace \<notin> set (dropWhile (\<lambda>c. c \<noteq> lbrace) content)
            \<longrightarrow> fst (create_user_story env user_input h)
                  = Inl (ValueError (str ''No JSON found in response''))
                \<and> exn_class (ValueError (str ''No JSON found in response''))
                    \<notin> set specification_errors)
       \<and> (rbrace \<in> set (dropWhile (\<lambda>c. c \<noteq> lbrace) content)
            \<longrightarrow> (\<exists>pre mid post. content = pre @ lbrace # mid @ rbrace # post
                  \<and> lbrace \<notin> set pre \<and> rbrace \<notin> set post))"
proof (intro conjI allI impI)
  fix pre mid post
  assume "content = pre @ lbrace # mid @ rbrace # post \<and> lbrace \<notin> set pre \<and> rbrace \<notin> set post"
  then have "re_search_braces content = Some (lbrace # mid @ [rbrace])"
    using re_search_braces_match[of pre post mid] by simp
  then show "fst (create_user_story env user_input h) = json_loads env (lbrace # mid @ [rbrace])"
    using create_user_story_text[OF assms] by simp
next
  assume "rbrace \<notin> set (dropWhile (\<lambda>c. c \<noteq> lbrace) content)"
  then have "re_search_braces content = None" by (simp add: re_search_braces_None)
  then show "fst (create_user_story env user_input h)
      = Inl (ValueError (str ''No JSON found in response''))"
    using create_user_story_text[OF assms] by simp
next
  assume "rbrace \<notin> set (dropWhile (\<lambda>c. c \<noteq> lbrace) content)"
  show "exn_class (ValueError (str ''No JSON found in response'')) \<notin> set specification_errors"
    by (rule spec_errors_absent)
next
  assume "rbrace \<in> set (dropWhile (\<lambda>c. c \<noteq> lbrace) content)"
  then have "re_search_braces content \<noteq> None" by (simp add: re_search_braces_None)
  then obtain m where "re_search_braces content = Some m" by auto
  from re_search_braces_Some[OF this] obtain pre mid post where
    "content = pre @ m @ post" "m = lbrace # mid @ [rbrace]"
    "lbrace \<notin> set pre" "rbrace \<notin> set post"
    by blast
  then have "content = pre @ lbrace # mid @ rbrace # post \<and> lbrace \<notin> set pre
      \<and> rbrace \<notin> set post"
    by simp
  then show "\<exists>pre mid post. content = pre @ lbrace # mid @ rbrace # post
      \<and> lbrace \<notin> set pre \<and> rbrace \<notin> set post"
    by (intro exI)
qed

lemma canned_object_text:
  "str ''Here is the user story: '' @ dumps_compact (JDict kvs)
     = str ''Here is the user story: ''
       @ lbrace # py_join (str '', '') (map (\<lambda>(k, v). quoted k @ str '': '' @ dumps_compact v) kvs)
       @ rbrace # []"
  "dumps_compact (JDict kvs)
     = lbrace # py_join (str '', '') (map (\<lambda>(k, v). quoted k @ str '': '' @ dumps_compact v) kvs)
       @ [rbrace]"
  "lbrace \<notin> set (str ''Here is the user story: '')"
  by (simp_all add: str_def lbrace_def rbrace_def)

lemma canned_extractor:
  "create_user_story (canned_env (JDict kvs)) ui h
     = (Inr (JDict kvs), h @ [CreateUserStory ui, Create (user_story_request ui)])"
proof -
  let ?env = "canned_env (JDict kvs)"
  have gen: "messages_create ?env (h @ [CreateUserStory ui]) (user_story_request ui)
      = Inr (TextBlock (str ''Here is the user story: '' @ dumps_compact (JDict kvs)) # [])"
    by (simp add: canned_generation_def user_story_request_def)
  have "re_search_braces (str ''Here is the user story: '' @ dumps_compact (JDict kvs))
      = Some (dumps_compact (JDict kvs))"
    unfolding canned_object_text(1)
    using re_search_braces_match[OF canned_object_text(3), of "[]"]
    by (simp add: canned_object_text(2) del: dumps_compact.simps)
  then have "fst (create_user_story ?env ui h) = Inr (JDict kvs)"
    using create_user_story_text[OF gen] by (simp del: dumps_compact.simps)
  then show ?thesis using extractor_events[of ?env ui h]
    by (cases "create_user_story ?env ui h") simp
qed

theorem create_user_story_extracts_witness:
  "messages_create (canned_env oauth_story) ([] @ [CreateUserStory (str ''Add OAuth2 login'')])
       (user_story_request (str ''Add OAuth2 login''))
     = Inr (TextBlock (str ''Here is the user story: '' @ dumps_compact oauth_story) # [])
   \<and> fst (create_user_story (canned_env oauth_story) (str ''Add OAuth2 login'') [])
     = Inr oauth_story
   \<and> messages_create prose_env ([] @ [CreateUserStory (str ''Add OAuth2 login'')])
       (user_story_request (str ''Add OAuth2 login''))
     = Inr (TextBlock (str ''I cannot write that story.'') # [])
   \<and> fst (create_user_story prose_env (str ''Add OAuth2 login'') [])
     = Inl (ValueError (str ''No JSON found in response''))"
proof -
  let ?ui = "str ''Add OAuth2 login''"
  obtain kvs where kvs: "oauth_story = JDict kvs" by (simp add: oauth_story_def)
  let ?mid = "py_join (str '', '') (map (\<lambda>(k, v). quoted k @ str '': '' @ dumps_compact v) kvs)"
  have gen: "messages_create (canned_env oauth_story) ([] @ [CreateUserStory ?ui])
       (user_story_request ?ui)
     = Inr (TextBlock (str ''Here is the user story: '' @ dumps_compact oauth_story) # [])"
    by (simp add: canned_generation_def user_story_request_def)
  have shape: "str ''Here is the user story: '' @ dumps_compact oauth_story
      = str ''Here is the user story: '' @ lbrace # ?mid @ rbrace # []
      \<and> lbrace \<notin> set (str ''Here is the user story: '') \<and> rbrace \<notin> set []"
    unfolding kvs using canned_object_text(1)[of kvs] canned_object_text(3) by simp
  have "fst (create_user_story (canned_env oauth_story) ?ui [])
      = json_loads (canned_env oauth_story) (lbrace # ?mid @ [rbrace])"
    using create_user_story_extracts[OF gen, THEN conjunct1, rule_format, OF shape] .
  then have ok: "fst (create_user_story (canned_env oauth_story) ?ui []) = Inr oauth_story"
    unfolding kvs by (simp add: canned_object_text(2) del: dumps_compact.simps)
  have prose: "messages_create prose_env ([] @ [CreateUserStory ?ui]) (user_story_request ?ui)
     = Inr (TextBlock (str ''I cannot write that story.'') # [])"
    by (simp add: prose_env_def)
  have "rbrace \<notin> set (dropWhile (\<lambda>c. c \<noteq> lbrace) (str ''I cannot write that story.''))"
    by (simp add: str_def lbrace_def rbrace_def)
  then have "fst (create_user_story prose_env ?ui [])
      = Inl (ValueError (str ''No JSON found in response''))"
    using create_user_story_extracts[OF prose, THEN conjunct2, THEN conjunct1] by simp
  then show ?thesis using gen ok prose by (simp only: simp_thms)
qed

text \<open>
  The statement of C1 fails on two runs. A generator output that holds the object \<^verbatim>\<open>{}\<close>, which
  has none of the five fields, is returned as it is, with no error; and prose without a brace
  raises \<^verbatim>\<open>ValueError\<close>, not \<^verbatim>\<open>SpecificationParseError\<close>.
\<close>

theorem create_user_story_counterexample:
  "fst (create_user_story (canned_env (JDict [])) (str ''Add OAuth2 login'') []) = Inr (JDict [])
   \<and> subscript (JDict []) (str ''title'') = Inl (KeyError (str ''title''))
   \<and> fst (create_user_story prose_env (str ''Add OAuth2 login'') [])
       = Inl (ValueError (str ''No JSON found in response''))
   \<and> exn_class (ValueError (str ''No JSON found in response''))
       \<noteq> str ''SpecificationParseError''"
proof -
  have 1: "fst (create_user_story (canned_env (JDict [])) (str ''Add OAuth2 login'') [])
      = Inr (JDict [])"
    by (simp add: canned_extractor)
  have prose: "messages_create prose_env ([] @ [CreateUserStory (str ''Add OAuth2 login'')])
       (user_story_request (str ''Add OAuth2 login''))
     = Inr (TextBlock (str ''I cannot write that story.'') # [])"
    by (simp add: prose_env_def)
  have "re_search_braces (str ''I cannot write that story.'') = None"
    by (simp add: re_search_braces_None str_def lbrace_def rbrace_def)
  then have 2: "fst (create_user_story prose_env (str ''Add OAuth2 login'') [])
      = Inl (ValueError (str ''No JSON found in response''))"
    using create_user_story_text[OF prose] by simp
  have 3: "exn_class (ValueError (str ''No JSON found in response''))
      \<noteq> str ''SpecificationParseError''"
    by (simp add: str_def)
  show ?thesis using 1 2 3 by simp
qed

section \<open>Properties of the publisher\<close>

text \<open>
  C8. The publisher writes one payload, whether the write succeeds or raises. The payload is
  a dictionary with the user story and one entry for each of the four roles; the entry of
  a role is its output when the context has one and \<^verbatim>\<open>null\<close> when the role is absent from
  the context.
\<close>

theorem execute_gsd_payload:
  "published (added h (snd (execute_gsd env user_story context repo branch h)))
     = [json_dumps_indent2 env (handoff_payload user_story context)]
   \<and> (\<exists>entries. handoff_payload user_story context = JDict entries
        \<and> map fst entries = [str ''user_story'', str ''research'', str ''architecture'',
              str ''documentation'', str ''security''])
   \<and> subscript (handoff_payload user_story context) (str ''user_story'') = Inr user_story
   \<and> (\<forall>role key. (role, key) \<in> set [(researcher, str ''research''),
          (architect, str ''architecture''), (documenter, str ''documentation''),
          (security, str ''security'')] \<longrightarrow>
         subscript (handoff_payload user_story context) key
           = Inr (case map_of context role of None \<Rightarrow> JNull | Some out \<Rightarrow> JStr out))"
proof -
  have keys: "str ''user_story'' \<noteq> str ''research''" "str ''user_story'' \<noteq> str ''architecture''"
    "str ''user_story'' \<noteq> str ''documentation''" "str ''user_story'' \<noteq> str ''security''"
    "str ''research'' \<noteq> str ''architecture''" "str ''research'' \<noteq> str ''documentation''"
    "str ''research'' \<noteq> str ''security''" "str ''architecture'' \<noteq> str ''documentation''"
    "str ''architecture'' \<noteq> str ''security''" "str ''documentation'' \<noteq> str ''security''"
    by (simp_all add: str_def)
  have 1: "published (added h (snd (execute_gsd env user_story context repo branch h)))
     = [json_dumps_indent2 env (handoff_payload user_story context)]"
    by (simp add: publisher_events added_def published_def map_filter_def)
  have 2: "\<exists>entries. handoff_payload user_story context = JDict entries
        \<and> map fst entries = [str ''user_story'', str ''research'', str ''architecture'',
              str ''documentation'', str ''security'']"
    by (simp add: handoff_payload_def)
  have 3: "subscript (handoff_payload user_story context) (str ''user_story'') = Inr user_story"
    by (simp add: handoff_payload_def)
  have 4: "\<forall>role key. (role, key) \<in> set [(researcher, str ''research''),
          (architect, str ''architecture''), (documenter, str ''documentation''),
          (security, str ''security'')] \<longrightarrow>
         subscript (handoff_payload user_story context) key
           = Inr (case map_of context role of None \<Rightarrow> JNull | Some out \<Rightarrow> JStr out)"
    using keys by (auto simp: handoff_payload_def context_get_def)
  show ?thesis using 1 2 3 4 by (simp only: simp_thms)
qed

theorem execute_gsd_payload_witness:
  "published (snd (execute_gsd (canned_env typo_story) typo_story
       [(architect, str ''design''), (documenter, str ''docs'')] (str ''acme/shop'')
       (str ''feature/fix-typo-in-readme'') []))
     = [dumps_indent 0 (JDict
          [(str ''user_story'', typo_story),
           (str ''research'', JNull),
           (str ''architecture'', JStr (str ''design'')),
           (str ''documentation'', JStr (str ''docs'')),
           (str ''security'', JNull)])]
   \<and> subscript (handoff_payload typo_story [(architect, str ''design''), (documenter, str ''docs'')])
        (str ''research'') = Inr JNull
   \<and> subscript (handoff_payload typo_story [(architect, str ''design''), (documenter, str ''docs'')])
        (str ''architecture'') = Inr (JStr (str ''design''))"
proof -
  let ?ctx = "[(architect, str ''design''), (documenter, str ''docs'')]"
  note t = execute_gsd_payload[of "[]" "canned_env typo_story" typo_story ?ctx
      "str ''acme/shop''" "str ''feature/fix-typo-in-readme''"]
  have p: "handoff_payload typo_story ?ctx = JDict
          [(str ''user_story'', typo_story),
           (str ''research'', JNull),
           (str ''architecture'', JStr (str ''design'')),
           (str ''documentation'', JStr (str ''docs'')),
           (str ''security'', JNull)]"
    by (simp add: handoff_payload_def context_get_def)
  have a: "published (snd (execute_gsd (canned_env typo_story) typo_story ?ctx (str ''acme/shop'')
       (str ''feature/fix-typo-in-readme'') []))
     = [dumps_indent 0 (handoff_payload typo_story ?ctx)]"
    using t[THEN conjunct1] by (simp add: added_def)
  have b: "subscript (handoff_payload typo_story ?ctx) (str ''research'') = Inr JNull"
    using t[THEN conjunct2, THEN conjunct2, THEN conjunct2, rule_format,
        of researcher "str ''research''"]
    by simp
  have c: "subscript (handoff_payload typo_story ?ctx) (str ''architecture'')
      = Inr (JStr (str ''design''))"
    using t[THEN conjunct2, THEN conjunct2, THEN conjunct2, rule_format,
        of architect "str ''architecture''"]
    by simp
  show ?thesis using a b c unfolding p by (simp only: simp_thms)
qed

section \<open>What a run invokes and publishes\<close>

lemma added_append [simp]: "added h (h @ evs) = evs"
  by (simp add: added_def)

lemma invoked_Nil [simp]: "invoked [] = []"
  by (simp add: invoked_def map_filter_def)

lemma invoked_Cons [simp]:
  "invoked (ev # evs) = (case component_of ev of None \<Rightarrow> invoked evs | Some c \<Rightarrow> c # invoked evs)"
  by (simp add: invoked_def map_filter_def split: option.splits)

lemma invoked_append [simp]: "invoked (xs @ ys) = invoked xs @ invoked ys"
  by (simp add: invoked_def map_filter_def)

lemma published_Nil [simp]: "published [] = []"
  by (simp add: published_def map_filter_def)

lemma published_Cons [simp]:
  "published (ev # evs) = (case written ev of None \<Rightarrow> published evs | Some t \<Rightarrow> t # published evs)"
  by (simp add: published_def map_filter_def split: option.splits)

lemma published_append [simp]: "published (xs @ ys) = published xs @ published ys"
  by (simp add: published_def map_filter_def)

lemma role_events_quiet:
  "list_all role_event evs \<Longrightarrow> invoked evs = [] \<and> published evs = []"
proof (induction evs)
  case Nil
  then show ?case by simp
next
  case (Cons ev evs)
  then have "role_event ev" by simp
  then have "component_of ev = None \<and> written ev = None"
    by (cases ev) (simp_all add: role_event_def)
  then show ?case using Cons by simp
qed

lemma posts_quiet:
  "list_all is_post evs \<Longrightarrow> invoked evs = [] \<and> published evs = [] \<and> roles_run evs = []"
proof (induction evs)
  case Nil
  then show ?case by simp
next
  case (Cons ev evs)
  then have "is_post ev" by simp
  then have "component_of ev = None \<and> written ev = None \<and> role_call ev = None"
    by (cases ev) simp_all
  then show ?case using Cons by (simp add: roles_run_Cons)
qed

lemma extractor_run:
  "create_user_story env ui h = (x, h1) \<Longrightarrow>
   h1 = h @ [CreateUserStory ui, Create (user_story_request ui)]"
  using extractor_events[of env ui h] by simp

lemma provisioner_run:
  assumes "create_branch env repo b h = (x, h2)"
  shows "\<exists>evs. h2 = h @ CreateBranch repo b # evs
     \<and> invoked evs = [] \<and> published evs = [] \<and> roles_run evs = []"
proof -
  from provisioner_events[of env repo b h] assms obtain tail where
    "h2 = h @ CreateBranch repo b # Get (head_url repo) (request_headers env) # tail"
    "list_all is_post tail"
    by auto
  then show ?thesis using posts_quiet[of tail] by (simp add: roles_run_Cons)
qed

lemma sequencer_quiet:
  assumes "spawn_specialists_sequential env s agents h = (x, h3)"
  shows "\<exists>evs. h3 = h @ SpawnSpecialists s agents # evs \<and> invoked evs = [] \<and> published evs = []"
  using sequencer_events[of env s agents h] assms role_events_quiet by auto

lemma publisher_run:
  "execute_gsd env s ctx repo b h = (x, h4) \<Longrightarrow>
   h4 = h @ [ExecuteGsd s ctx repo b,
             WriteText (gettempdir env) context_file_name
               (json_dumps_indent2 env (handoff_payload s ctx))]"
  using publisher_events[of env s ctx repo b h] by simp

lemma run_summary:
  assumes "handle_request env ui repo h = (r, h')"
  shows "prefix h h'
     \<and> ((invoked (added h h') = [Extractor]
           \<and> published (added h h') = [] \<and> roles_run (added h h') = [] \<and> (\<exists>e. r = Inl e))
        \<or> (invoked (added h h') = [Extractor, Router]
           \<and> published (added h h') = [] \<and> roles_run (added h h') = [] \<and> (\<exists>e. r = Inl e))
        \<or> (invoked (added h h') = [Extractor, Router, BranchProvisioner]
           \<and> published (added h h') = [] \<and> roles_run (added h h') = []
           \<and> (\<exists>e b hB. r = Inl e \<and> create_branch env repo b hB = (Inl e, h')))
        \<or> (invoked (added h h') = [Extractor, Router, BranchProvisioner, Sequencer]
           \<and> published (added h h') = [] \<and> (\<exists>e. r = Inl e))
        \<or> (invoked (added h h')
             = [Extractor, Router, BranchProvisioner, Sequencer, HandoffPublisher]
           \<and> (\<exists>e. r = Inl e))
        \<or> (invoked (added h h') = program_order
           \<and> (\<exists>text. published (added h h') = [text])
           \<and> r = Inr (str ''https://github.com/'' @ repo @ str ''/pull/XXX'')))"
  using assms
proof (cases rule: handle_request_cases)
  case (extractor_raised e)
  then show ?thesis by (auto dest!: extractor_run simp: roles_run_Cons)
next
  case (no_summary story e)
  then show ?thesis by (auto dest!: extractor_run simp: roles_run_Cons)
next
  case (no_title story h1 e)
  then show ?thesis by (auto dest!: extractor_run simp: roles_run_Cons)
next
  case (title_not_str story h1 title e)
  then show ?thesis by (auto dest!: extractor_run simp: roles_run_Cons)
next
  case (provisioner_raised story h1 title slug e)
  from provisioner_run[OF provisioner_raised(4)] obtain evs where
    "h' = (h1 @ [DecideAgents story, Slugify title]) @ CreateBranch repo (str ''feature/'' @ slug) # evs"
    "invoked evs = []" "published evs = []" "roles_run evs = []"
    by blast
  moreover have "h1 = h @ [CreateUserStory ui, Create (user_story_request ui)]"
    using provisioner_raised(1) by (rule extractor_run)
  ultimately have "prefix h h'" "invoked (added h h') = [Extractor, Router, BranchProvisioner]"
    "published (added h h') = []" "roles_run (added h h') = []"
    by (simp_all add: roles_run_Cons)
  then show ?thesis using provisioner_raised(4,5) by blast
next
  case (sequencer_raised story h1 title slug h2 e)
  from provisioner_run[OF sequencer_raised(4)] obtain evs where
    "h2 = (h1 @ [DecideAgents story, Slugify title]) @ CreateBranch repo (str ''feature/'' @ slug) # evs"
    "invoked evs = []" "published evs = []"
    by blast
  moreover from sequencer_quiet[OF sequencer_raised(5)] obtain evs' where
    "h' = h2 @ SpawnSpecialists story (decide_agents env story) # evs'"
    "invoked evs' = []" "published evs' = []"
    by blast
  moreover have "h1 = h @ [CreateUserStory ui, Create (user_story_request ui)]"
    using sequencer_raised(1) by (rule extractor_run)
  ultimately have "prefix h h'"
    "invoked (added h h') = [Extractor, Router, BranchProvisioner, Sequencer]"
    "published (added h h') = []"
    by simp_all
  then show ?thesis using sequencer_raised(6) by blast
next
  case (publisher_raised story h1 title slug h2 ctx h3 e)
  from provisioner_run[OF publisher_raised(4)] obtain evs where
    "h2 = (h1 @ [DecideAgents story, Slugify title]) @ CreateBranch repo (str ''feature/'' @ slug) # evs"
    "invoked evs = []" "published evs = []"
    by blast
  moreover from sequencer_quiet[OF publisher_raised(5)] obtain evs' where
    "h3 = h2 @ SpawnSpecialists story (decide_agents env story) # evs'"
    "invoked evs' = []" "published evs' = []"
    by blast
  moreover note publisher_run[OF publisher_raised(6)]
  moreover have "h1 = h @ [CreateUserStory ui, Create (user_story_request ui)]"
    using publisher_raised(1) by (rule extractor_run)
  ultimately have "prefix h h'"
    "invoked (added h h') = [Extractor, Router, BranchProvisioner, Sequencer, HandoffPublisher]"
    by simp_all
  then show ?thesis using publisher_raised(7) by blast
next
  case (returned story h1 title slug h2 ctx h3 h4)
  from provisioner_run[OF returned(4)] obtain evs where
    "h2 = (h1 @ [DecideAgents story, Slugify title]) @ CreateBranch repo (str ''feature/'' @ slug) # evs"
    "invoked evs = []" "published evs = []"
    by blast
  moreover from sequencer_quiet[OF returned(5)] obtain evs' where
    "h3 = h2 @ SpawnSpecialists story (decide_agents env story) # evs'"
    "invoked evs' = []" "published evs' = []"
    by blast
  moreover note publisher_run[OF returned(6)] returned(8)
  moreover have "h1 = h @ [CreateUserStory ui, Create (user_story_request ui)]"
    using returned(1) by (rule extractor_run)
  ultimately have "prefix h h'"
    "invoked (added h h') = program_order"
    "\<exists>text. published (added h h') = [text]"
    by (simp_all add: program_order_def)
  then show ?thesis using returned(7) by blast
qed

lemma str_eq_iff [simp]: "str a = str b \<longleftrightarrow> a = b"
  by (simp add: str_def inj_map_eq_map inj_on_def)

lemma adds_mono: "adds P m \<Longrightarrow> (\<And>ev. P ev \<Longrightarrow> Q ev) \<Longrightarrow> adds Q m"
  unfolding adds_def list_all_iff by blast





lemma run_from_provisioner:
  assumes "create_user_story env ui h = (Inr story, h1)"
    and "subscript story (str ''summary'') = Inr summary"
    and "subscript story (str ''title'') = Inr title"
    and "slugify_value env title = Inr slug"
  shows "handle_request env ui repo h
     = io_bind (create_branch env repo (str ''feature/'' @ slug)) (\<lambda>_.
       io_bind (spawn_specialists_sequential env story (decide_agents env story)) (\<lambda>ctx.
       io_bind (execute_gsd env story ctx repo (str ''feature/'' @ slug)) (\<lambda>_.
       io_bind (wait_for_pr repo (str ''feature/'' @ slug)) (\<lambda>pr_url. io_return pr_url))))
         (h1 @ [DecideAgents story, Slugify title])"
proof -
  have "handle_request env ui repo h
    = io_bind (io_lift (subscript story (str ''summary''))) (\<lambda>_.
     io_bind (emit (DecideAgents story)) (\<lambda>_.
     io_bind (io_return (decide_agents env story)) (\<lambda>agents_needed.
     io_bind (io_lift (subscript story (str ''title''))) (\<lambda>title.
     io_bind (emit (Slugify title)) (\<lambda>_.
     io_bind (io_lift (slugify_value env title)) (\<lambda>slug.
     io_bind (io_return (str ''feature/'' @ slug)) (\<lambda>branch_name.
     io_bind (create_branch env repo branch_name) (\<lambda>_.
     io_bind (spawn_specialists_sequential env story agents_needed) (\<lambda>specialist_results.
     io_bind (execute_gsd env story specialist_results repo branch_name) (\<lambda>_.
     io_bind (wait_for_pr repo branch_name) (\<lambda>pr_url.
     io_return pr_url))))))))))) h1"
    unfolding handle_request_def using assms(1) by (simp add: io_bind_def)
  then show ?thesis
    using assms(2-4) by (simp add: bind_lift_Inr bind_emit bind_return)
qed

lemma create_branch_result:
  "fst (create_branch env repo b h)
     = (case requests_get env (h @ [CreateBranch repo b]) (head_url repo) (request_headers env) of
          Inl e \<Rightarrow> Inl e
        | Inr response \<Rightarrow>
            (case head_sha response of
               Inl e \<Rightarrow> Inl e
             | Inr sha \<Rightarrow>
                 (case requests_post env
                         (h @ [CreateBranch repo b, Get (head_url repo) (request_headers env)])
                         (create_url repo) (request_headers env) (ref_payload b sha) of
                    Inl e \<Rightarrow> Inl e
                  | Inr created \<Rightarrow> Inr ())))"
  by (simp add: create_branch_def head_sha_def io_bind_def emit_def perform_def io_lift_def
      io_return_def split: sum.splits)



lemma fst_bind:
  "fst (m h) = Inr x \<Longrightarrow> fst (io_bind m k h) = fst (k x (snd (m h)))"
  by (cases "m h") (simp add: io_bind_def)

lemma run_returns:
  assumes "create_user_story env ui h = (Inr story, h1)"
    and "subscript story (str ''summary'') = Inr summary"
    and "subscript story (str ''title'') = Inr title"
    and "slugify_value env title = Inr slug"
    and "\<And>h. fst (create_branch env repo (str ''feature/'' @ slug) h) = Inr ()"
    and "\<And>h. fst (spawn_specialists_sequential env story (decide_agents env story) h) = Inr ctx"
    and "\<And>h. fst (execute_gsd env story ctx repo (str ''feature/'' @ slug) h) = Inr ()"
  shows "fst (handle_request env ui repo h) = Inr (str ''https://github.com/'' @ repo @ str ''/pull/XXX'')"
proof -
  have w: "fst (wait_for_pr repo b h) = Inr (str ''https://github.com/'' @ repo @ str ''/pull/XXX'')"
    for b h
    by (simp add: watcher_run)
  show ?thesis
    unfolding run_from_provisioner[OF assms(1-4)]
    by (simp only: fst_bind[OF assms(5)] fst_bind[OF assms(6)] fst_bind[OF assms(7)]
        fst_bind[OF w] io_return_def fst_conv)
qed

lemma returned_run:
  assumes "fst (handle_request env ui repo h) = Inr url"
  shows "invoked (added h (snd (handle_request env ui repo h))) = program_order
     \<and> (\<exists>text. published (added h (snd (handle_request env ui repo h))) = [text])
     \<and> url = str ''https://github.com/'' @ repo @ str ''/pull/XXX''"
proof -
  have "handle_request env ui repo h = (Inr url, snd (handle_request env ui repo h))"
    using assms by (cases "handle_request env ui repo h") simp
  from run_summary[OF this] show ?thesis by auto
qed

subsection \<open>Runs with the canned collaborators\<close>

lemma oauth_story_fields:
  "subscript oauth_story (str ''summary'') = Inr (JStr (str ''Log in with OAuth2''))"
  "subscript oauth_story (str ''title'') = Inr (JStr (str ''Add OAuth2 login''))"
  by (simp_all add: oauth_story_def)

lemma oauth_slug:
  "py_lower env = ascii_lower \<Longrightarrow>
   slugify_value env (JStr (str ''Add OAuth2 login'')) = Inr (str ''add-oauth2-login'')"
  by (simp add: slugify_def ascii_lower_def str_def strip_hyphen_def is_alnum_def hyphen_def)

lemma head_resolved: "head_sha head_response = Inr (JStr (str ''abc123''))"
  by (simp add: head_sha_def head_response_def)

lemma provisioner_returns:
  assumes "requests_get env = (\<lambda>h url headers. Inr head_response)"
    and "requests_post env = (\<lambda>h url headers payload. Inr (created payload))"
  shows "fst (create_branch env repo b h) = Inr ()"
  by (simp add: create_branch_result assms head_resolved)

lemma sequencer_returns:
  assumes "prompts env = canned_prompts" and "messages_create env = canned_generation s0"
  shows "fst (spawn_specialists_sequential env s [researcher, architect, documenter, security] h)
     = Inr [(researcher, str ''Output for: '' @ str ''You research.''),
            (security, str ''Output for: '' @ str ''You are a security expert.''),
            (architect, str ''Output for: '' @ str ''You design.''),
            (documenter, str ''Output for: '' @ str ''You document.'')]"
  by (simp add: sequencer_defs io_defs assms)

lemma publisher_returns:
  "write_text env = (\<lambda>h dir name text. Inr ()) \<Longrightarrow> fst (execute_gsd env s ctx repo b h) = Inr ()"
  by (simp add: execute_gsd_def io_bind_def emit_def perform_def)

lemma oauth_run_returns:
  assumes "create_user_story env ui h = (Inr oauth_story, h1)"
    and "py_lower env = ascii_lower" and "json_dumps env = dumps_compact"
    and "list_of_set env = remdups"
    and "prompts env = canned_prompts" and "messages_create env = canned_generation s0"
    and "requests_get env = (\<lambda>h url headers. Inr head_response)"
    and "requests_post env = (\<lambda>h url headers payload. Inr (created payload))"
    and "write_text env = (\<lambda>h dir name text. Inr ())"
  shows "fst (handle_request env ui repo h)
     = Inr (str ''https://github.com/'' @ repo @ str ''/pull/XXX'')"
proof (rule run_returns[OF assms(1) oauth_story_fields oauth_slug[OF assms(2)]])
  show "fst (create_branch env repo (str ''feature/'' @ str ''add-oauth2-login'') h) = Inr ()" for h
    by (rule provisioner_returns[OF assms(7,8)])
  show "fst (spawn_specialists_sequential env oauth_story (decide_agents env oauth_story) h)
     = Inr [(researcher, str ''Output for: '' @ str ''You research.''),
            (security, str ''Output for: '' @ str ''You are a security expert.''),
            (architect, str ''Output for: '' @ str ''You design.''),
            (documenter, str ''Output for: '' @ str ''You document.'')]" for h
    unfolding decide_agents_oauth[OF assms(2-4)] by (rule sequencer_returns[OF assms(5,6)])
  show "fst (execute_gsd env oauth_story ctx repo (str ''feature/'' @ str ''add-oauth2-login'') h)
     = Inr ()" for ctx h
    by (rule publisher_returns[OF assms(9)])
qed

lemma oauth_object: "oauth_story = JDict
     [(str ''title'', JStr (str ''Add OAuth2 login'')),
      (str ''summary'', JStr (str ''Log in with OAuth2'')),
      (str ''acceptance_criteria'', JList [JStr (str ''Login works'')]),
      (str ''technical_notes'', JStr (str ''Use PKCE'')),
      (str ''estimated_complexity'', JStr (str ''low''))]"
  by (simp add: oauth_story_def)

lemma canned_run_returns:
  "fst (handle_request (canned_env oauth_story) ui repo h)
     = Inr (str ''https://github.com/'' @ repo @ str ''/pull/XXX'')"
proof -
  have "create_user_story (canned_env oauth_story) ui h
     = (Inr oauth_story, h @ [CreateUserStory ui, Create (user_story_request ui)])"
    unfolding oauth_object by (rule canned_extractor)
  then show ?thesis
    by (rule oauth_run_returns[where created = "\<lambda>payload. \<lparr>status_code = 201, json_body = Inr payload\<rparr>"])
       simp_all
qed




section \<open>Properties of the whole run\<close>

text \<open>
  C3, as the program has it. A run that returns has invoked the components in the order
  Extractor, Router, Branch Provisioner, Sequencer (which drives the role executors), Handoff
  Publisher, Completion Watcher: the branch is provisioned before the sequencer runs. A run
  that raises has invoked a prefix of that order.
\<close>

theorem handle_request_order:
  assumes "handle_request env user_input repo h = (r, h')"
  shows "prefix h h'
     \<and> prefix (invoked (added h h')) program_order
     \<and> (\<forall>url. r = Inr url \<longrightarrow> invoked (added h h') = program_order)"
  using run_summary[OF assms] by (auto simp: program_order_def)

theorem handle_request_order_witness:
  "fst (handle_request (canned_env oauth_story) (str ''Add OAuth2 login'') (str ''acme/shop'') [])
     = Inr (str ''https://github.com/'' @ str ''acme/shop'' @ str ''/pull/XXX'')
   \<and> invoked (added [] (snd (handle_request (canned_env oauth_story) (str ''Add OAuth2 login'')
        (str ''acme/shop'') [])))
     = [Extractor, Router, BranchProvisioner, Sequencer, HandoffPublisher, CompletionWatcher]"
proof -
  let ?run = "handle_request (canned_env oauth_story) (str ''Add OAuth2 login'')
     (str ''acme/shop'') []"
  let ?url = "str ''https://github.com/'' @ str ''acme/shop'' @ str ''/pull/XXX''"
  have r: "fst ?run = Inr ?url" by (rule canned_run_returns)
  then have "?run = (Inr ?url, snd ?run)" by (cases ?run) simp
  from handle_request_order[OF this] have "invoked (added [] (snd ?run)) = program_order"
    by simp
  then show ?thesis using r by (simp add: program_order_def)
qed

text \<open>
  The statement of C3 fails on the run with the canned collaborators, which returns: the
  Branch Provisioner is invoked before the Sequencer, not after it.
\<close>

theorem handle_request_order_counterexample:
  "fst (handle_request (canned_env oauth_story) (str ''Add OAuth2 login'') (str ''acme/shop'') [])
     = Inr (str ''https://github.com/'' @ str ''acme/shop'' @ str ''/pull/XXX'')
   \<and> invoked (snd (handle_request (canned_env oauth_story) (str ''Add OAuth2 login'')
        (str ''acme/shop'') []))
     = [Extractor, Router, BranchProvisioner, Sequencer, HandoffPublisher, CompletionWatcher]
   \<and> invoked (snd (handle_request (canned_env oauth_story) (str ''Add OAuth2 login'')
        (str ''acme/shop'') []))
     \<noteq> stated_order"
proof -
  let ?run = "handle_request (canned_env oauth_story) (str ''Add OAuth2 login'')
     (str ''acme/shop'') []"
  have r: "fst ?run = Inr (str ''https://github.com/'' @ str ''acme/shop'' @ str ''/pull/XXX'')"
    by (rule canned_run_returns)
  from returned_run[OF r] have "invoked (snd ?run) = program_order" by (simp add: added_def)
  then show ?thesis using r by (simp add: program_order_def stated_order_def)
qed

text \<open>
  C9. The watcher returns \<^verbatim>\<open>https://github.com/{repo}/pull/XXX\<close> whatever the repository and
  the branch: it never raises, and it sends no request to the hosting collaborator. So every
  pull-request reference that \<^verbatim>\<open>handle_request\<close> returns is this placeholder, which ends in
  \<^verbatim>\<open>/pull/XXX\<close> and names no pull request.
\<close>

theorem wait_for_pr_placeholder:
  "wait_for_pr repo branch h
     = (Inr (str ''https://github.com/'' @ repo @ str ''/pull/XXX''), h @ [WaitForPr repo branch])
   \<and> \<not> list_ex is_hosting_request (added h (snd (wait_for_pr repo branch h)))
   \<and> (\<forall>url. fst (handle_request env user_input repo h) = Inr url \<longrightarrow>
         url = str ''https://github.com/'' @ repo @ str ''/pull/XXX''
         \<and> suffix (str ''/pull/XXX'') url)"
proof -
  have "url = str ''https://github.com/'' @ repo @ str ''/pull/XXX''
      \<and> suffix (str ''/pull/XXX'') url"
    if "fst (handle_request env user_input repo h) = Inr url" for url
    using returned_run[OF that] by (simp add: suffix_def)
  then show ?thesis by (simp add: watcher_run)
qed

theorem wait_for_pr_placeholder_witness:
  "fst (handle_request (canned_env oauth_story) (str ''Add OAuth2 login'') (str ''acme/shop'') [])
     = Inr (str ''https://github.com/acme/shop/pull/XXX'')
   \<and> suffix (str ''/pull/XXX'') (str ''https://github.com/acme/shop/pull/XXX'')"
proof -
  let ?run = "handle_request (canned_env oauth_story) (str ''Add OAuth2 login'')
     (str ''acme/shop'') []"
  have u: "str ''https://github.com/'' @ str ''acme/shop'' @ str ''/pull/XXX''
      = str ''https://github.com/acme/shop/pull/XXX''"
    by (simp add: str_def)
  have r: "fst ?run = Inr (str ''https://github.com/acme/shop/pull/XXX'')"
    using canned_run_returns[of "str ''Add OAuth2 login''" "str ''acme/shop''" "[]"]
    unfolding u .
  from wait_for_pr_placeholder[of "str ''acme/shop''" _ "[]" "canned_env oauth_story"
      "str ''Add OAuth2 login''", THEN conjunct2, THEN conjunct2, rule_format, OF r]
  have "suffix (str ''/pull/XXX'') (str ''https://github.com/acme/shop/pull/XXX'')"
    by (rule conjunct2)
  then show ?thesis using r by (simp only: simp_thms)
qed








lemma headless_provisioner:
  "create_branch headless_env repo b h
     = (Inl (KeyError (str ''object'')),
        h @ [CreateBranch repo b, Get (head_url repo) (request_headers headless_env)])"
  by (simp add: create_branch_def io_defs headless_env_def not_found_def)



end
